theory Spec2Isabelle
  imports Complex_Main "HOL-Library.Stream"
begin

section \<open>The BERT pretraining sample builder of \<open>libai/data/bert_dataset.py\<close>\<close>

text \<open>
  This theory embeds the methods of \<open>BertDataset\<close> that build one training sample:
  \<open>create_random_sentence_pair\<close>, \<open>truncate_seq_pair\<close>,
  \<open>create_tokens_and_token_types\<close>, \<open>mask_token\<close>,
  \<open>create_masked_lm_predictions\<close>, \<open>pad_and_convert_to_numpy\<close> and
  \<open>create_training_sample\<close>. Token ids are Python integers (\<open>int\<close>), list positions
  are naturals, every exception the code can raise is a value of \<open>error\<close>, and a method
  returns \<open>error + result\<close>.
\<close>

subsection \<open>Exceptions\<close>

datatype error =
    AssertionError
  | NameError string
  | UnboundLocalError string
  | AttributeError string
  | KeyError int
  | IndexError
  | OverflowError
  | ValueError

subsection \<open>The dataset object\<close>

text \<open>
  The fields of \<open>self\<close> that the sample builder reads. \<open>mask_lm_prob\<close> is a Python float;
  it is kept as the rational it denotes. The one floating-point computation on it,
  \<open>int(round(len(tokens) * self.mask_lm_prob))\<close>, is the field \<open>round_len_prob\<close> applied to
  \<open>len(tokens)\<close>: the theorems below hold for every such function, so for the IEEE one.
  \<open>vocab_id_to_token_dict\<close> is the dict \<open>tokenizer.inv_vocab\<close>.
\<close>

record dataset =
  mask_lm_prob :: rat
  round_len_prob :: "nat \<Rightarrow> int"
  max_seq_length :: int
  binary_head :: bool
  max_preds_per_seq :: int
  vocab_id_list :: "int list"
  vocab_id_to_token_dict :: "int \<rightharpoonup> string"
  cls_id :: int
  sep_id :: int
  mask_id :: int
  pad_id :: int

subsection \<open>Python list subscripts and numpy conversion\<close>

text \<open>
  The position that the subscript \<open>i\<close> denotes in a list of \<open>len\<close> elements, as Python
  resolves it: \<open>i\<close> itself from 0 up, \<open>len + i\<close> for the negative subscripts down to
  \<open>-len\<close>, and none otherwise (the access then raises \<open>IndexError\<close>).
\<close>

definition py_index :: "nat \<Rightarrow> int \<Rightarrow> nat option" where
  "py_index len i =
     (if 0 \<le> i \<and> i < int len then Some (nat i)
      else if - int len \<le> i \<and> i < 0 then Some (nat (int len + i))
      else None)"

text \<open>The assignment \<open>xs[i] = v\<close> and the read \<open>xs[i]\<close>.\<close>

definition py_setitem :: "'a list \<Rightarrow> int \<Rightarrow> 'a \<Rightarrow> error + 'a list" where
  "py_setitem xs i v =
     (case py_index (length xs) i of None \<Rightarrow> Inl IndexError | Some j \<Rightarrow> Inr (xs[j := v]))"

definition py_getitem :: "'a list \<Rightarrow> int \<Rightarrow> error + 'a" where
  "py_getitem xs i =
     (case py_index (length xs) i of None \<Rightarrow> Inl IndexError | Some j \<Rightarrow> Inr (xs ! j))"

text \<open>\<open>np.array(xs, dtype=np.int64)\<close> raises when an element does not fit 64 bits.\<close>

definition int64_ok :: "int \<Rightarrow> bool" where
  "int64_ok x \<longleftrightarrow> - (2 ^ 63) \<le> x \<and> x < 2 ^ 63"

definition np_array_int64 :: "int list \<Rightarrow> error + int list" where
  "np_array_int64 xs = (if list_all int64_ok xs then Inr xs else Inl OverflowError)"

subsection \<open>\<open>pad_and_convert_to_numpy\<close>\<close>

text \<open>
  The loop \<open>for idx, label in zip(masked_positions, masked_labels)\<close> over the two lists
  \<open>labels\<close> and \<open>loss_mask\<close>.
\<close>

fun set_labels :: "nat \<Rightarrow> (int \<times> int) list \<Rightarrow> int list \<Rightarrow> int list \<Rightarrow> error + (int list \<times> int list)" where
  "set_labels num_tokens [] labels loss_mask = Inr (labels, loss_mask)"
| "set_labels num_tokens ((idx, label) # rest) labels loss_mask =
     (if \<not> idx < int num_tokens then Inl AssertionError
      else case py_setitem labels idx label of
             Inl e \<Rightarrow> Inl e
           | Inr labels' \<Rightarrow>
               (case py_setitem loss_mask idx 1 of
                  Inl e \<Rightarrow> Inl e
                | Inr loss_mask' \<Rightarrow> set_labels num_tokens rest labels' loss_mask'))"

text \<open>The result is the tuple \<open>(tokens_np, token_types_np, labels_np, padding_mask_np, loss_mask_np)\<close>.\<close>

definition pad_and_convert_to_numpy ::
  "dataset \<Rightarrow> int list \<Rightarrow> int list \<Rightarrow> int list \<Rightarrow> int list \<Rightarrow>
     error + (int list \<times> int list \<times> int list \<times> int list \<times> int list)" where
  "pad_and_convert_to_numpy self tokens token_types masked_positions masked_labels =
     (let num_tokens = length tokens;
          num_pad = max_seq_length self - int num_tokens
      in if \<not> num_pad \<ge> 0 then Inl AssertionError
         else if \<not> length token_types = num_tokens then Inl AssertionError
         else if \<not> length masked_positions = length masked_labels then Inl AssertionError
         else
           let filler = replicate (nat num_pad) (pad_id self) in
           (case np_array_int64 (tokens @ filler) of
              Inl e \<Rightarrow> Inl e
            | Inr tokens_np \<Rightarrow>
           (case np_array_int64 (token_types @ filler) of
              Inl e \<Rightarrow> Inl e
            | Inr token_types_np \<Rightarrow>
           (let padding_mask_np = replicate num_tokens 1 @ replicate (nat num_pad) 0;
                labels = replicate (nat (max_seq_length self)) (- 1);
                loss_mask = replicate (nat (max_seq_length self)) 0
            in
           (case set_labels num_tokens (zip masked_positions masked_labels) labels loss_mask of
              Inl e \<Rightarrow> Inl e
            | Inr (labels', loss_mask') \<Rightarrow>
           (case np_array_int64 labels' of
              Inl e \<Rightarrow> Inl e
            | Inr labels_np \<Rightarrow>
           (case np_array_int64 loss_mask' of
              Inl e \<Rightarrow> Inl e
            | Inr loss_mask_np \<Rightarrow>
                Inr (tokens_np, token_types_np, labels_np, padding_mask_np,
                     loss_mask_np))))))))"

subsection \<open>The random generator\<close>

text \<open>
  \<open>np_rng\<close> is a \<open>numpy.random.RandomState\<close>. Its state is kept as the stream of draws
  it is going to deliver, one per call; each method reads the next draw and maps it into the
  range of its result, so every value numpy can return is returned for some stream and no
  other value ever is. A method returns the generator it leaves behind.

  \<open>random()\<close> is a double \<open>k / 2^53\<close> with \<open>0 \<le> k < 2^53\<close>; on such a value the float
  comparisons \<open>< 0.5\<close> and \<open>< 0.8\<close> of the source agree with the rational ones.
\<close>

type_synonym rng = "nat stream"

definition rng_random :: "rng \<Rightarrow> rat \<times> rng" where
  "rng_random r = (of_nat (shd r mod 2 ^ 53) / 2 ^ 53, stl r)"

text \<open>\<open>randint(low, high)\<close>: an integer of \<open>[low, high)\<close>; numpy raises \<open>ValueError\<close> when the range is empty.\<close>

definition rng_randint :: "int \<Rightarrow> int \<Rightarrow> rng \<Rightarrow> error + (int \<times> rng)" where
  "rng_randint low high r =
     (if low \<ge> high then Inl ValueError
      else Inr (low + int (shd r) mod (high - low), stl r))"

text \<open>
  \<open>shuffle(x)\<close> on a Python list: \<open>for i in reversed(range(1, n)): j = random_interval(i);
  x[i], x[j] = x[j], x[i]\<close>, with \<open>j\<close> in \<open>[0, i]\<close>.
\<close>

fun shuffle_from :: "nat \<Rightarrow> 'a list \<Rightarrow> rng \<Rightarrow> 'a list \<times> rng" where
  "shuffle_from 0 xs r = (xs, r)"
| "shuffle_from (Suc i) xs r =
     (let j = shd r mod Suc (Suc i)
      in shuffle_from i (xs[Suc i := xs ! j, j := xs ! Suc i]) (stl r))"

definition rng_shuffle :: "'a list \<Rightarrow> rng \<Rightarrow> 'a list \<times> rng" where
  "rng_shuffle xs r = shuffle_from (length xs - 1) xs r"

text \<open>
  \<open>choice(a, p=...)\<close> with positive weights returns one element of \<open>a\<close>; the weights
  decide how often, not which elements are possible. An empty \<open>a\<close> raises \<open>ValueError\<close>.
\<close>

definition rng_choice :: "'a list \<Rightarrow> rng \<Rightarrow> error + ('a \<times> rng)" where
  "rng_choice xs r =
     (if xs = [] then Inl ValueError else Inr (xs ! (shd r mod length xs), stl r))"

text \<open>\<open>geometric(0.2)\<close> returns a positive integer.\<close>

definition rng_geometric :: "rng \<Rightarrow> int \<times> rng" where
  "rng_geometric r = (1 + int (shd r), stl r)"

subsection \<open>\<open>create_random_sentence_pair\<close>\<close>

text \<open>
  The two \<open>for\<close> loops concatenate the sentences before and from \<open>a_end\<close>. The method
  ends with \<open>return tokens_a, tokens_b, is_random_next\<close>, and the only flag bound in the
  body is \<open>is_next_random\<close>: neither a local, nor a module global, nor a builtin is called
  \<open>is_random_next\<close>, so evaluating the return expression raises \<open>NameError\<close>.
\<close>

definition create_random_sentence_pair ::
  "int list list \<Rightarrow> rng \<Rightarrow> error + (int list \<times> int list \<times> bool \<times> rng)" where
  "create_random_sentence_pair sample r =
     (let num_sentences = length sample
      in if \<not> num_sentences > 1 then Inl AssertionError
         else case (if num_sentences \<ge> 3 then rng_randint 1 (int num_sentences) r
                    else Inr (1, r)) of
                Inl e \<Rightarrow> Inl e
              | Inr (a_end, r1) \<Rightarrow>
                  let tokens_a = concat (take (nat a_end) sample);
                      tokens_b = concat (drop (nat a_end) sample);
                      (u, r2) = rng_random r1;
                      (is_next_random, tokens_a', tokens_b') =
                         (if u < 1 / 2 then (True, tokens_b, tokens_a)
                          else (False, tokens_a, tokens_b))
                  in Inl (NameError ''is_random_next''))"

subsection \<open>\<open>truncate_seq_pair\<close>\<close>

text \<open>
  The loop leaves through \<open>break\<close> when the two lengths fit the budget. Otherwise it picks
  the list to shorten and then evaluates \<open>rng.random()\<close>: the parameter is called
  \<open>np_rng\<close>, and no local, module global or builtin is called \<open>rng\<close>, so the first
  iteration that has something to remove raises \<open>NameError\<close> before it removes anything.
\<close>

definition truncate_seq_pair ::
  "int list \<Rightarrow> int list \<Rightarrow> int \<Rightarrow> rng \<Rightarrow> error + (int list \<times> int list \<times> rng)" where
  "truncate_seq_pair tokens_a tokens_b max_num_tokens r =
     (let len_a = length tokens_a; len_b = length tokens_b;
          total_length = int len_a + int len_b
      in if total_length \<le> max_num_tokens then Inr (tokens_a, tokens_b, r)
         else
           let (trunc_tokens, len_a', len_b') =
                 (if len_a > len_b then (tokens_a, len_a - 1, len_b)
                  else (tokens_b, len_a, len_b - 1))
           in Inl (NameError ''rng''))"

subsection \<open>\<open>create_tokens_and_token_types\<close>\<close>

definition create_tokens_and_token_types ::
  "dataset \<Rightarrow> int list \<Rightarrow> int list \<Rightarrow> int list \<times> int list" where
  "create_tokens_and_token_types self tokens_a tokens_b =
     ([cls_id self] @ tokens_a @ [sep_id self] @ tokens_b @ [sep_id self],
      replicate (length tokens_a + 2) 0 @ replicate (length tokens_b + 1) 1)"

subsection \<open>\<open>mask_token\<close>\<close>

text \<open>
  The method returns the label and leaves the new id in \<open>tokens[idx]\<close>. Its third branch
  evaluates \<open>np.rng.randint\<close>: the module \<open>numpy\<close> has no attribute \<open>rng\<close>, so that branch
  raises \<open>AttributeError\<close> before a vocabulary id is drawn.
\<close>

definition mask_token :: "dataset \<Rightarrow> nat \<Rightarrow> int list \<Rightarrow> rng \<Rightarrow> error + (int \<times> int list \<times> rng)" where
  "mask_token self idx tokens r =
     (if \<not> idx < length tokens then Inl IndexError
      else
        let label = tokens ! idx; (u, r1) = rng_random r
        in if u < 8 / 10 then Inr (label, tokens[idx := mask_id self], r1)
           else
             let (v, r2) = rng_random r1
             in if v < 1 / 2 then Inr (label, tokens[idx := label], r2)
                else Inl (AttributeError ''rng''))"

subsection \<open>\<open>create_masked_lm_predictions\<close>\<close>

definition is_start_piece :: "string \<Rightarrow> bool" where
  "is_start_piece piece = (\<not> take 2 piece = ''##'')"

text \<open>
  The loop \<open>for (i, token) in enumerate(tokens)\<close> that groups the positions into words.
  The dict is read only when the two tests before it hold; a missing id raises \<open>KeyError\<close>.
\<close>

fun cand_indexes_loop :: "dataset \<Rightarrow> bool \<Rightarrow> (nat \<times> int) list \<Rightarrow> nat list list \<Rightarrow> error + nat list list" where
  "cand_indexes_loop self do_whole_word_mask [] cand_indexes = Inr cand_indexes"
| "cand_indexes_loop self do_whole_word_mask ((i, token) # rest) cand_indexes =
     (if token = cls_id self \<or> token = sep_id self
      then cand_indexes_loop self do_whole_word_mask rest cand_indexes
      else if do_whole_word_mask \<and> length cand_indexes \<ge> 1
      then (case vocab_id_to_token_dict self token of
              None \<Rightarrow> Inl (KeyError token)
            | Some piece \<Rightarrow>
                if \<not> is_start_piece piece
                then cand_indexes_loop self do_whole_word_mask rest
                       (butlast cand_indexes @ [last cand_indexes @ [i]])
                else cand_indexes_loop self do_whole_word_mask rest (cand_indexes @ [[i]]))
      else cand_indexes_loop self do_whole_word_mask rest (cand_indexes @ [[i]]))"

definition num_to_predict_of :: "dataset \<Rightarrow> int list \<Rightarrow> int" where
  "num_to_predict_of self tokens =
     min (max_preds_per_seq self) (max 1 (round_len_prob self (length tokens)))"

text \<open>
  \<open>ngrams = np.arange(1, max_ngrams + 1)\<close>, and for every \<open>idx\<close> the list of the slices
  \<open>cand_indexes[idx:idx + n]\<close>, one per \<open>n\<close> of \<open>ngrams\<close>.
\<close>

definition ngrams_of :: "int \<Rightarrow> int list" where
  "ngrams_of max_ngrams = [1..max_ngrams]"

definition build_ngram_indexes :: "nat list list \<Rightarrow> int list \<Rightarrow> nat list list list list" where
  "build_ngram_indexes cand_indexes ngrams =
     map (\<lambda>idx. map (\<lambda>n. take (nat n) (drop idx cand_indexes)) ngrams)
       [0..<length cand_indexes]"

text \<open>The variables the main loop updates.\<close>

record mask_state =
  masked_lms :: "(nat \<times> int) list"
  covered_indexes :: "nat set"
  output_tokens :: "int list"
  np_rng :: rng

text \<open>
  \<open>while len(masked_lms) + len(index_set) > num_to_predict\<close>, entered after the first
  \<open>n -= 1\<close>: it only ever goes to the next shorter n-gram.
\<close>

function shrink_ngram :: "nat list list list \<Rightarrow> nat \<Rightarrow> int \<Rightarrow> int \<Rightarrow> nat list \<Rightarrow> error + nat list" where
  "shrink_ngram cand_index_set num_masked num_to_predict n index_set =
     (if int num_masked + int (length index_set) > num_to_predict
      then (if n = 0 then Inr index_set
            else case py_getitem cand_index_set (n - 1) of
                   Inl e \<Rightarrow> Inl e
                 | Inr groups \<Rightarrow>
                     shrink_ngram cand_index_set num_masked num_to_predict (n - 1) (concat groups))
      else Inr index_set)"
  by pat_completeness auto
termination
  by (relation "measure (\<lambda>(c, m, p, n, s). nat (n + int (length c)))")
     (auto simp: py_getitem_def py_index_def split: if_splits option.splits)

text \<open>The last loop of the body: \<open>for index in index_set\<close>.\<close>

fun mask_indexes :: "dataset \<Rightarrow> nat list \<Rightarrow> mask_state \<Rightarrow> error + mask_state" where
  "mask_indexes self [] st = Inr st"
| "mask_indexes self (index # rest) st =
     (case mask_token self index (output_tokens st) (np_rng st) of
        Inl e \<Rightarrow> Inl e
      | Inr (label, tokens', r) \<Rightarrow>
          mask_indexes self rest
            (st\<lparr>covered_indexes := insert index (covered_indexes st),
                output_tokens := tokens',
                np_rng := r,
                masked_lms := masked_lms st @ [(index, label)]\<rparr>))"

text \<open>
  The body of \<open>for cand_index_set in ngram_indexes\<close>, after its \<open>break\<close> test and its
  test for an empty \<open>cand_index_set\<close>, in three parts. The first nested loop of the body
  (lines 248 to 251) has \<open>continue\<close> as its only statement, inside the inner loop: it
  changes nothing and is left out.

  Lines 253 to 261 draw \<open>n\<close>. The weights \<open>pvals\<close>, and with them \<open>favor_longer_ngram\<close>,
  only enter the call of \<open>choice\<close>.
\<close>

definition choose_ngram :: "bool \<Rightarrow> int \<Rightarrow> nat \<Rightarrow> rng \<Rightarrow> error + (int \<times> rng)" where
  "choose_ngram geometric_dist max_ngrams num_sets r =
     (if \<not> geometric_dist then rng_choice (take num_sets (ngrams_of max_ngrams)) r
      else (let (g, r') = rng_geometric r in Inr (min g max_ngrams, r')))"

text \<open>Lines 263 to 271 turn \<open>n\<close> into the flat \<open>index_set\<close> and shorten it to the budget.\<close>

definition select_index_set ::
  "bool \<Rightarrow> int \<Rightarrow> int \<Rightarrow> nat list list list \<Rightarrow> mask_state \<Rightarrow> error + (nat list \<times> rng)" where
  "select_index_set geometric_dist max_ngrams num_to_predict cand_index_set st =
     (case choose_ngram geometric_dist max_ngrams (length cand_index_set) (np_rng st) of
        Inl e \<Rightarrow> Inl e
      | Inr (n, r) \<Rightarrow>
          (case py_getitem cand_index_set (n - 1) of
             Inl e \<Rightarrow> Inl e
           | Inr groups \<Rightarrow>
               (case shrink_ngram cand_index_set (length (masked_lms st)) num_to_predict (n - 1)
                       (concat groups) of
                  Inl e \<Rightarrow> Inl e
                | Inr index_set \<Rightarrow> Inr (index_set, r))))"

text \<open>
  Lines 245 and 246 and lines 272 to 286: the empty set and the two reasons to skip the
  candidate, and else the masking of every position of \<open>index_set\<close>.
\<close>

definition ngram_step ::
  "dataset \<Rightarrow> bool \<Rightarrow> int \<Rightarrow> int \<Rightarrow> nat list list list \<Rightarrow> mask_state \<Rightarrow> error + mask_state" where
  "ngram_step self geometric_dist max_ngrams num_to_predict cand_index_set st =
     (if cand_index_set = [] then Inr st
      else
        (case select_index_set geometric_dist max_ngrams num_to_predict cand_index_set st of
           Inl e \<Rightarrow> Inl e
         | Inr (index_set, r) \<Rightarrow>
             (if int (length (masked_lms st)) + int (length index_set) > num_to_predict
              then Inr (st\<lparr>np_rng := r\<rparr>)
              else if list_ex (\<lambda>index. index \<in> covered_indexes st) index_set
              then Inr (st\<lparr>np_rng := r\<rparr>)
              else mask_indexes self index_set (st\<lparr>np_rng := r\<rparr>))))"

fun mask_loop ::
  "dataset \<Rightarrow> bool \<Rightarrow> int \<Rightarrow> int \<Rightarrow> nat list list list list \<Rightarrow> mask_state \<Rightarrow> error + mask_state" where
  "mask_loop self geometric_dist max_ngrams num_to_predict [] st = Inr st"
| "mask_loop self geometric_dist max_ngrams num_to_predict (cand_index_set # rest) st =
     (if int (length (masked_lms st)) \<ge> num_to_predict then Inr st
      else case ngram_step self geometric_dist max_ngrams num_to_predict cand_index_set st of
             Inl e \<Rightarrow> Inl e
           | Inr st' \<Rightarrow> mask_loop self geometric_dist max_ngrams num_to_predict rest st')"

text \<open>
  The method. Its early exit for \<open>mask_lm_prob == 0\<close> returns \<open>output_tokens\<close>, a local
  that is assigned only further down (line 219), so that exit raises
  \<open>UnboundLocalError\<close>. The result is \<open>(output_tokens, masked_positions, masked_labels)\<close>
  and the generator left behind.
\<close>

definition create_masked_lm_predictions ::
  "dataset \<Rightarrow> int list \<Rightarrow> rng \<Rightarrow> int \<Rightarrow> bool \<Rightarrow> bool \<Rightarrow> bool \<Rightarrow>
     error + (int list \<times> nat list \<times> int list \<times> rng)" where
  "create_masked_lm_predictions self tokens r max_ngrams do_whole_word_mask
       favor_longer_ngram geometric_dist =
     (if mask_lm_prob self = 0 then Inl (UnboundLocalError ''output_tokens'')
      else
        (case cand_indexes_loop self do_whole_word_mask (enumerate 0 tokens) [] of
           Inl e \<Rightarrow> Inl e
         | Inr cand_indexes \<Rightarrow>
             (let num_to_predict = num_to_predict_of self tokens;
                  ngrams = ngrams_of max_ngrams;
                  (ngram_indexes, r1) = rng_shuffle (build_ngram_indexes cand_indexes ngrams) r
              in (case mask_loop self geometric_dist max_ngrams num_to_predict ngram_indexes
                         \<lparr>masked_lms = [], covered_indexes = {}, output_tokens = tokens,
                          np_rng = r1\<rparr> of
                    Inl e \<Rightarrow> Inl e
                  | Inr st \<Rightarrow>
                      (let sorted_lms = sort_key fst (masked_lms st)
                       in Inr (output_tokens st, map fst sorted_lms, map snd sorted_lms,
                               np_rng st))))))"

subsection \<open>\<open>create_training_sample\<close> and \<open>__getitem__\<close>\<close>

datatype py_value = Array "int list" | Num int

text \<open>
  The dict display that ends \<open>create_training_sample\<close>. Its seven entries are evaluated
  in order; the last one reads the name \<open>truncated\<close>, given here as the value bound to it,
  if any. (Line 119 of the source holds one more closing brace; the display is read as
  closed on line 118.)
\<close>

definition train_sample_dict ::
  "int list \<Rightarrow> int list \<Rightarrow> int list \<Rightarrow> bool \<Rightarrow> int list \<Rightarrow> int list \<Rightarrow> bool option \<Rightarrow>
     error + (string \<times> py_value) list" where
  "train_sample_dict tokens_np token_types_np labels_np is_next_random loss_mask_np
       padding_mask_np truncated =
     (case truncated of
        None \<Rightarrow> Inl (NameError ''truncated'')
      | Some t \<Rightarrow>
          Inr [(''text'', Array tokens_np),
               (''types'', Array token_types_np),
               (''labels'', Array labels_np),
               (''is_random'', Num (if is_next_random then 1 else 0)),
               (''loss_mask'', Array loss_mask_np),
               (''padding_mask'', Array padding_mask_np),
               (''truncated'', Num (if t then 1 else 0))])"

text \<open>
  No statement of the method, of the class or of the module binds \<open>truncated\<close>, so the
  dict display is evaluated with no value for it.
\<close>

definition create_training_sample ::
  "dataset \<Rightarrow> int list list \<Rightarrow> int \<Rightarrow> rng \<Rightarrow> error + (string \<times> py_value) list" where
  "create_training_sample self sample target_seq_length r =
     (if binary_head self \<and> \<not> length sample > 1 then Inl AssertionError
      else if \<not> target_seq_length \<le> max_seq_length self then Inl AssertionError
      else
        (case (if binary_head self then create_random_sentence_pair sample r
               else Inr (concat sample, [], False, r)) of
           Inl e \<Rightarrow> Inl e
         | Inr (tokens_a, tokens_b, is_next_random, r1) \<Rightarrow>
        (case truncate_seq_pair tokens_a tokens_b target_seq_length r1 of
           Inl e \<Rightarrow> Inl e
         | Inr (tokens_a', tokens_b', r2) \<Rightarrow>
        (let (tokens, token_types) = create_tokens_and_token_types self tokens_a' tokens_b'
         in
        (case create_masked_lm_predictions self tokens r2 3 True False False of
           Inl e \<Rightarrow> Inl e
         | Inr (tokens', masked_positions, masked_labels, r3) \<Rightarrow>
        (case pad_and_convert_to_numpy self tokens' token_types
                (map int masked_positions) masked_labels of
           Inl e \<Rightarrow> Inl e
         | Inr (tokens_np, token_types_np, labels_np, padding_mask_np, loss_mask_np) \<Rightarrow>
             train_sample_dict tokens_np token_types_np labels_np is_next_random
               loss_mask_np padding_mask_np None))))))"

text \<open>
  \<open>__getitem__\<close>. The sample index and the corpus are collaborators of the class:
  \<open>samples_mapping\<close> is the table of \<open>(start_idx, end_idx, seq_length)\<close> rows,
  \<open>indexed_dataset\<close> the sentences by index, and \<open>random_state\<close> is
  \<open>np.random.RandomState\<close>, from a seed to a generator.
\<close>

definition getitem ::
  "dataset \<Rightarrow> int \<Rightarrow> (nat \<times> nat \<times> int) list \<Rightarrow> int list list \<Rightarrow> (nat \<Rightarrow> rng) \<Rightarrow> nat \<Rightarrow>
     error + (string \<times> py_value) list" where
  "getitem self seed samples_mapping indexed_dataset random_state idx =
     (if \<not> idx < length samples_mapping then Inl IndexError
      else
        let (start_idx, end_idx, seq_length) = samples_mapping ! idx
        in if list_ex (\<lambda>i. \<not> i < length indexed_dataset) [start_idx..<end_idx]
           then Inl IndexError
           else
             let sample = map (\<lambda>i. indexed_dataset ! i) [start_idx..<end_idx];
                 r = random_state (nat ((seed + int idx) mod 2 ^ 32))
             in create_training_sample self sample seq_length r)"

subsection \<open>Notions used to state the properties\<close>

text \<open>
  A candidate token is one the grouping loop does not skip; a continuation token is one
  whose piece the vocabulary knows and \<open>is_start_piece\<close> rejects.
\<close>

definition is_cand :: "dataset \<Rightarrow> int \<Rightarrow> bool" where
  "is_cand self token \<longleftrightarrow> token \<noteq> cls_id self \<and> token \<noteq> sep_id self"

definition is_continuation :: "dataset \<Rightarrow> int \<Rightarrow> bool" where
  "is_continuation self token \<longleftrightarrow>
     (case vocab_id_to_token_dict self token of
        None \<Rightarrow> False
      | Some piece \<Rightarrow> \<not> is_start_piece piece)"

text \<open>The budget test of lines 267 and 274.\<close>

definition over_budget :: "nat \<Rightarrow> int \<Rightarrow> nat list \<Rightarrow> bool" where
  "over_budget num_masked num_to_predict index_set \<longleftrightarrow>
     int num_masked + int (length index_set) > num_to_predict"

text \<open>
  The invariant of the main loop, for the grouping \<open>c\<close> of the tokens: the covered set is
  the set of the masked positions, no position is masked twice, every group is masked as a
  whole or not at all, the count stays within the budget, and the output differs from the
  input only at masked positions, whose labels are the input's ids.
\<close>

definition planner_inv :: "nat list list \<Rightarrow> int list \<Rightarrow> int \<Rightarrow> mask_state \<Rightarrow> bool" where
  "planner_inv c tokens ntp st \<longleftrightarrow>
     covered_indexes st = fst ` set (masked_lms st)
   \<and> distinct (map fst (masked_lms st))
   \<and> (\<forall>g \<in> set c. set g \<subseteq> covered_indexes st \<or> set g \<inter> covered_indexes st = {})
   \<and> covered_indexes st \<subseteq> set (concat c)
   \<and> int (length (masked_lms st)) \<le> max 0 ntp
   \<and> length (output_tokens st) = length tokens
   \<and> (\<forall>j. j \<notin> covered_indexes st \<longrightarrow> output_tokens st ! j = tokens ! j)
   \<and> (\<forall>(p, l) \<in> set (masked_lms st). l = tokens ! p)"

subsection \<open>A small dataset for the examples\<close>

text \<open>
  Ids 1, 2, 3 and 0 are \<open>[CLS]\<close>, \<open>[SEP]\<close>, \<open>[MASK]\<close> and \<open>[PAD]\<close>; 101 and 103 start a
  word, 102 and 104 continue one. The rounding function is \<open>round(0.15 * n)\<close> on the
  lengths used below.
\<close>

definition example_dataset :: dataset where
  "example_dataset =
     \<lparr>mask_lm_prob = 15 / 100,
      round_len_prob = (\<lambda>n. (3 * int n + 10) div 20),
      max_seq_length = 8,
      binary_head = False,
      max_preds_per_seq = 20,
      vocab_id_list = [0, 1, 2, 3, 101, 102, 103, 104],
      vocab_id_to_token_dict =
        map_of [(0, ''[PAD]''), (1, ''[CLS]''), (2, ''[SEP]''), (3, ''[MASK]''),
                (101, ''play''), (102, ''##ing''), (103, ''cat''), (104, ''##s'')],
      cls_id = 1, sep_id = 2, mask_id = 3, pad_id = 0\<rparr>"

section \<open>Properties\<close>

text \<open>
  The unfolding of \<open>shrink_ngram\<close> is applied by hand in the proofs; the list below is what
  evaluates the planner on a concrete input.
\<close>

declare shrink_ngram.simps [simp del]

lemmas planner_eval =
  create_masked_lm_predictions_def example_dataset_def ngram_step_def select_index_set_def
  choose_ngram_def rng_shuffle_def rng_choice_def rng_random_def rng_geometric_def
  mask_token_def num_to_predict_of_def ngrams_of_def build_ngram_indexes_def py_getitem_def
  py_index_def is_start_piece_def enumerate_eq_zip upto.simps upt_rec Let_def
  shrink_ngram.simps

subsection \<open>The serializer\<close>

lemma py_setitem_length: "py_setitem xs i v = Inr ys \<Longrightarrow> length ys = length xs"
  by (auto simp: py_setitem_def split: option.splits)

text \<open>
  The invariant of the label loop: the two lists keep their length, and a position holds
  loss mask 1 exactly when its label is not \<open>-1\<close>, provided every label written is not \<open>-1\<close>.
\<close>

lemma set_labels_inv:
  assumes "set_labels nt ps labels loss = Inr (labels', loss')"
    and "length labels = n" and "length loss = n"
    and "\<forall>(p, l) \<in> set ps. l \<noteq> - 1"
    and "\<forall>i < n. loss ! i = 1 \<longleftrightarrow> labels ! i \<noteq> - 1"
  shows "length labels' = n \<and> length loss' = n \<and> (\<forall>i < n. loss' ! i = 1 \<longleftrightarrow> labels' ! i \<noteq> - 1)"
  using assms
proof (induction ps arbitrary: labels loss)
  case Nil
  then show ?case by simp
next
  case (Cons a ps)
  obtain idx label where a: "a = (idx, label)" by (cases a)
  from Cons.prems(1) a obtain l1 m1 where
    l1: "py_setitem labels idx label = Inr l1" and
    m1: "py_setitem loss idx 1 = Inr m1" and
    rest: "set_labels nt ps l1 m1 = Inr (labels', loss')"
    by (auto split: if_splits sum.splits)
  have ne: "label \<noteq> - 1" using Cons.prems(4) a by auto
  have len: "length l1 = n" "length m1 = n"
    using l1 m1 Cons.prems(2,3) by (auto dest: py_setitem_length)
  have inv: "\<forall>i < n. m1 ! i = 1 \<longleftrightarrow> l1 ! i \<noteq> - 1"
    using l1 m1 Cons.prems(2,3,5) ne
    by (auto simp: py_setitem_def py_index_def nth_list_update split: if_splits option.splits)
  show ?case
    using Cons.IH[OF rest len] Cons.prems(4) inv by auto
qed

lemma set_labels_marks:
  assumes "set_labels nt ps labels loss = Inr (labels', loss')"
    and "length labels = n"
    and "\<forall>(p, l) \<in> set ps. l \<noteq> - 1"
  shows "\<forall>i < n. labels' ! i \<noteq> - 1
           \<longleftrightarrow> labels ! i \<noteq> - 1 \<or> (\<exists>p \<in> fst ` set ps. py_index n p = Some i)"
  using assms
proof (induction ps arbitrary: labels loss)
  case Nil
  then show ?case by simp
next
  case (Cons a ps)
  obtain idx label where a: "a = (idx, label)" by (cases a)
  from Cons.prems(1) a obtain l1 m1 where
    l1: "py_setitem labels idx label = Inr l1" and
    rest: "set_labels nt ps l1 m1 = Inr (labels', loss')"
    by (auto split: if_splits sum.splits)
  have ne: "label \<noteq> - 1" using Cons.prems(3) a by auto
  from l1 Cons.prems(2) obtain j where
    j: "py_index n idx = Some j" "l1 = labels[j := label]"
    by (auto simp: py_setitem_def split: option.splits)
  have jn: "j < n" using j(1) by (auto simp: py_index_def split: if_splits)
  have len: "length l1 = n" using j(2) Cons.prems(2) by simp
  have step: "\<forall>i < n. l1 ! i \<noteq> - 1 \<longleftrightarrow> labels ! i \<noteq> - 1 \<or> i = j"
  proof (intro allI impI)
    fix i assume "i < n"
    then have "i < length labels" using Cons.prems(2) by simp
    then show "l1 ! i \<noteq> - 1 \<longleftrightarrow> labels ! i \<noteq> - 1 \<or> i = j"
      unfolding j(2) using ne by (cases "i = j") simp_all
  qed
  have rest_ne: "\<forall>(p, l) \<in> set ps. l \<noteq> - 1" using Cons.prems(3) by simp
  from Cons.IH[OF rest len rest_ne] have
    ih: "\<forall>i < n. labels' ! i \<noteq> - 1
           \<longleftrightarrow> l1 ! i \<noteq> - 1 \<or> (\<exists>p \<in> fst ` set ps. py_index n p = Some i)" .
  show ?case
  proof (intro allI impI)
    fix i assume i: "i < n"
    have e: "(\<exists>p \<in> fst ` set (a # ps). py_index n p = Some i)
            \<longleftrightarrow> i = j \<or> (\<exists>p \<in> fst ` set ps. py_index n p = Some i)"
      using j(1) unfolding a by auto
    have 1: "labels' ! i \<noteq> - 1
           \<longleftrightarrow> l1 ! i \<noteq> - 1 \<or> (\<exists>p \<in> fst ` set ps. py_index n p = Some i)"
      using ih i by simp
    have 2: "l1 ! i \<noteq> - 1 \<longleftrightarrow> labels ! i \<noteq> - 1 \<or> i = j"
      using step i by simp
    show "labels' ! i \<noteq> - 1
           \<longleftrightarrow> labels ! i \<noteq> - 1 \<or> (\<exists>p \<in> fst ` set (a # ps). py_index n p = Some i)"
      unfolding 1 2 e by (rule disj_assoc)
  qed
qed

text \<open>
  Claim C1. When \<open>pad_and_convert_to_numpy\<close> returns, its five arrays all have length
  \<open>max_seq_length\<close>; the padding mask is 1 on the real tokens, which form a prefix of the
  token array, and 0 on the pad filler after it; and at every index the loss mask is 1
  exactly when the label is not \<open>-1\<close>, and the label is not \<open>-1\<close> exactly at the
  indexes that a masked position denotes, for non-negative token ids (the labels are ids).
\<close>

theorem pad_and_convert_to_numpy_shape:
  assumes ret: "pad_and_convert_to_numpy self tokens token_types masked_positions masked_labels
            = Inr (tokens_np, token_types_np, labels_np, padding_mask_np, loss_mask_np)"
    and ids: "\<forall>t \<in> set tokens. 0 \<le> t" "\<forall>l \<in> set masked_labels. 0 \<le> l"
  shows "int (length tokens_np) = max_seq_length self
       \<and> int (length token_types_np) = max_seq_length self
       \<and> int (length labels_np) = max_seq_length self
       \<and> int (length padding_mask_np) = max_seq_length self
       \<and> int (length loss_mask_np) = max_seq_length self
       \<and> take (length tokens) tokens_np = tokens
       \<and> drop (length tokens) tokens_np
           = replicate (nat (max_seq_length self) - length tokens) (pad_id self)
       \<and> (\<forall>i < length padding_mask_np.
             padding_mask_np ! i = (if i < length tokens then 1 else 0))
       \<and> (\<forall>i < nat (max_seq_length self). loss_mask_np ! i = 1 \<longleftrightarrow> labels_np ! i \<noteq> - 1)
       \<and> (\<forall>i < nat (max_seq_length self).
             labels_np ! i \<noteq> - 1
               \<longleftrightarrow> (\<exists>p \<in> set masked_positions.
                      py_index (nat (max_seq_length self)) p = Some i))"
proof -
  define L where "L = nat (max_seq_length self)"
  define filler where "filler = replicate (L - length tokens) (pad_id self)"
  from ret have pad: "int (length tokens) \<le> max_seq_length self"
    and tt: "length token_types = length tokens"
    and mm: "length masked_positions = length masked_labels"
    by (auto simp: pad_and_convert_to_numpy_def Let_def split: if_splits)
  have npad: "nat (max_seq_length self - int (length tokens)) = L - length tokens"
    using pad by (simp add: L_def nat_diff_distrib')
  from ret pad tt mm npad obtain l1 m1 where
    tk: "tokens_np = tokens @ filler" and
    ty: "token_types_np = token_types @ filler" and
    pm: "padding_mask_np = replicate (length tokens) 1 @ replicate (L - length tokens) 0" and
    sl: "set_labels (length tokens) (zip masked_positions masked_labels)
           (replicate L (- 1)) (replicate L 0) = Inr (l1, m1)" and
    lb: "labels_np = l1" and ls: "loss_mask_np = m1"
    by (auto simp: pad_and_convert_to_numpy_def Let_def np_array_int64_def L_def filler_def
             split: if_splits sum.splits prod.splits)
  have lenL: "length tokens \<le> L" using pad by (simp add: L_def)
  have ne: "\<forall>(p, l) \<in> set (zip masked_positions masked_labels). l \<noteq> - 1"
    using ids(2) by (auto dest!: set_zip_rightD)
  have inv: "length l1 = L \<and> length m1 = L \<and> (\<forall>i < L. m1 ! i = 1 \<longleftrightarrow> l1 ! i \<noteq> - 1)"
    by (rule set_labels_inv[OF sl _ _ ne]) simp_all
  have intL: "int L = max_seq_length self" using pad by (simp add: L_def)
  have c1: "int (length tokens_np) = max_seq_length self"
    using tk lenL intL by (simp add: filler_def)
  have c2: "int (length token_types_np) = max_seq_length self"
    using ty tt lenL intL by (simp add: filler_def)
  have c3: "int (length labels_np) = max_seq_length self" using lb inv intL by simp
  have c4: "int (length padding_mask_np) = max_seq_length self" using pm lenL intL by simp
  have c5: "int (length loss_mask_np) = max_seq_length self" using ls inv intL by simp
  have c6: "take (length tokens) tokens_np = tokens" using tk by simp
  have c7: "drop (length tokens) tokens_np
              = replicate (nat (max_seq_length self) - length tokens) (pad_id self)"
    using tk by (simp add: filler_def L_def)
  have c8: "\<forall>i < length padding_mask_np.
              padding_mask_np ! i = (if i < length tokens then 1 else 0)"
    using pm by (auto simp: nth_append)
  have c9: "\<forall>i < nat (max_seq_length self). loss_mask_np ! i = 1 \<longleftrightarrow> labels_np ! i \<noteq> - 1"
    using inv lb ls by (simp add: L_def)
  have fz: "fst ` set (zip masked_positions masked_labels) = set masked_positions"
    using mm by (metis list.set_map map_fst_zip)
  have mk: "\<forall>i < L. l1 ! i \<noteq> - 1
              \<longleftrightarrow> replicate L (- 1 :: int) ! i \<noteq> - 1
                  \<or> (\<exists>p \<in> fst ` set (zip masked_positions masked_labels). py_index L p = Some i)"
    by (rule set_labels_marks[OF sl _ ne]) simp
  have c10: "\<forall>i < nat (max_seq_length self).
             labels_np ! i \<noteq> - 1
               \<longleftrightarrow> (\<exists>p \<in> set masked_positions.
                      py_index (nat (max_seq_length self)) p = Some i)"
    using mk lb unfolding fz L_def[symmetric] by simp
  show ?thesis by (intro conjI c1 c2 c3 c4 c5 c6 c7 c8 c9 c10)
qed

theorem pad_and_convert_to_numpy_shape_witness:
  "pad_and_convert_to_numpy example_dataset [1, 101, 3, 2] [0, 0, 0, 0] [2] [102]
     = Inr ([1, 101, 3, 2, 0, 0, 0, 0], [0, 0, 0, 0, 0, 0, 0, 0],
            [- 1, - 1, 102, - 1, - 1, - 1, - 1, - 1], [1, 1, 1, 1, 0, 0, 0, 0],
            [0, 0, 1, 0, 0, 0, 0, 0])
   \<and> list_all (\<lambda>t. 0 \<le> t) [1, 101, 3, 2 :: int] \<and> list_all (\<lambda>l. 0 \<le> l) [102 :: int]
   \<and> int (length [1, 101, 3, 2, 0, 0, 0, 0 :: int]) = max_seq_length example_dataset
   \<and> int (length [0, 0, 1, 0, 0, 0, 0, 0 :: int]) = max_seq_length example_dataset
   \<and> ([0, 0, 1, 0, 0, 0, 0, 0 :: int] ! 2 = 1)
       = ([- 1, - 1, 102, - 1, - 1, - 1, - 1, - 1 :: int] ! 2 \<noteq> - 1)
   \<and> ([0, 0, 1, 0, 0, 0, 0, 0 :: int] ! 5 = 1)
       = ([- 1, - 1, 102, - 1, - 1, - 1, - 1, - 1 :: int] ! 5 \<noteq> - 1)"
proof -
  have ret: "pad_and_convert_to_numpy example_dataset [1, 101, 3, 2] [0, 0, 0, 0] [2] [102]
     = Inr ([1, 101, 3, 2, 0, 0, 0, 0], [0, 0, 0, 0, 0, 0, 0, 0],
            [- 1, - 1, 102, - 1, - 1, - 1, - 1, - 1], [1, 1, 1, 1, 0, 0, 0, 0],
            [0, 0, 1, 0, 0, 0, 0, 0])"
    by code_simp
  have ids: "\<forall>t \<in> set [1, 101, 3, 2 :: int]. 0 \<le> t" "\<forall>l \<in> set [102 :: int]. 0 \<le> l"
    by simp_all
  have L: "(2::nat) < nat (max_seq_length example_dataset)"
    "(5::nat) < nat (max_seq_length example_dataset)"
    by (simp_all add: example_dataset_def)
  note c = pad_and_convert_to_numpy_shape[OF ret ids]
  note r4 = c[THEN conjunct2, THEN conjunct2, THEN conjunct2, THEN conjunct2]
  note r8 = r4[THEN conjunct2, THEN conjunct2, THEN conjunct2, THEN conjunct2]
  have len1: "int (length [1, 101, 3, 2, 0, 0, 0, 0 :: int]) = max_seq_length example_dataset"
    by (rule c[THEN conjunct1])
  have len5: "int (length [0, 0, 1, 0, 0, 0, 0, 0 :: int]) = max_seq_length example_dataset"
    by (rule r4[THEN conjunct1])
  have iff: "\<forall>i < nat (max_seq_length example_dataset).
      ([0, 0, 1, 0, 0, 0, 0, 0 :: int] ! i = 1)
        = ([- 1, - 1, 102, - 1, - 1, - 1, - 1, - 1 :: int] ! i \<noteq> - 1)"
    by (rule r8[THEN conjunct1])
  have i2: "([0, 0, 1, 0, 0, 0, 0, 0 :: int] ! 2 = 1)
       = ([- 1, - 1, 102, - 1, - 1, - 1, - 1, - 1 :: int] ! 2 \<noteq> - 1)"
    using iff L(1) by blast
  have i5: "([0, 0, 1, 0, 0, 0, 0, 0 :: int] ! 5 = 1)
       = ([- 1, - 1, 102, - 1, - 1, - 1, - 1, - 1 :: int] ! 5 \<noteq> - 1)"
    using iff L(2) by blast
  have pos: "list_all (\<lambda>t. 0 \<le> t) [1, 101, 3, 2 :: int]" "list_all (\<lambda>l. 0 \<le> l) [102 :: int]"
    by simp_all
  show ?thesis by (intro conjI ret pos len1 len5 i2 i5)
qed

subsection \<open>The segment splitter and the truncator\<close>

lemma create_random_sentence_pair_raises:
  "\<exists>e. create_random_sentence_pair sample r = Inl e"
  by (auto simp: create_random_sentence_pair_def Let_def split: sum.splits prod.splits)

text \<open>
  Claim C6 (the code departs from it). On the document of the two sentences \<open>[101, 102]\<close>
  and \<open>[103]\<close> the splitter does not return a triple: it raises \<open>NameError\<close> for
  \<open>is_random_next\<close> when it evaluates its return expression.
\<close>

theorem create_random_sentence_pair_name_error:
  "create_random_sentence_pair [[101, 102], [103]] (sconst 0) = Inl (NameError ''is_random_next'')"
  by (simp add: create_random_sentence_pair_def rng_random_def Let_def)

text \<open>
  Claim C5 (the code departs from it). Segments \<open>[101, 102]\<close> and \<open>[]\<close> with budget 1
  hold one token too many; the truncator does not return shortened segments, it raises
  \<open>NameError\<close> for \<open>rng\<close>.
\<close>

theorem truncate_seq_pair_name_error:
  "truncate_seq_pair [101, 102] [] 1 (sconst 0) = Inl (NameError ''rng'')"
  by (simp add: truncate_seq_pair_def Let_def)

lemma truncate_seq_pair_within_budget:
  "int (length tokens_a) + int (length tokens_b) \<le> max_num_tokens \<Longrightarrow>
     truncate_seq_pair tokens_a tokens_b max_num_tokens r = Inr (tokens_a, tokens_b, r)"
  by (simp add: truncate_seq_pair_def Let_def)

lemma truncate_seq_pair_over_budget:
  "int (length tokens_a) + int (length tokens_b) > max_num_tokens \<Longrightarrow>
     truncate_seq_pair tokens_a tokens_b max_num_tokens r = Inl (NameError ''rng'')"
  by (simp add: truncate_seq_pair_def Let_def split: prod.splits)

subsection \<open>The masking planner\<close>

text \<open>
  Claim C7 (the code departs from it). With \<open>mask_lm_prob = 0\<close> the planner does not return
  the tokens with two empty lists: its early exit raises \<open>UnboundLocalError\<close>.
\<close>

theorem create_masked_lm_predictions_zero_prob:
  "create_masked_lm_predictions (example_dataset\<lparr>mask_lm_prob := 0\<rparr>) [1, 101, 2]
     (sconst 0) 3 True False False = Inl (UnboundLocalError ''output_tokens'')"
  by (simp add: create_masked_lm_predictions_def)

lemma create_masked_lm_predictions_zero_prob_raises:
  "mask_lm_prob self = 0 \<Longrightarrow>
     create_masked_lm_predictions self tokens r max_ngrams do_whole_word_mask
       favor_longer_ngram geometric_dist = Inl (UnboundLocalError ''output_tokens'')"
  by (simp add: create_masked_lm_predictions_def)

text \<open>The grouping loop, one token at a time.\<close>

lemma cand_indexes_loop_append:
  "cand_indexes_loop self w (xs @ ys) c =
     (case cand_indexes_loop self w xs c of Inl e \<Rightarrow> Inl e
      | Inr c' \<Rightarrow> cand_indexes_loop self w ys c')"
proof (induction xs arbitrary: c)
  case Nil
  show ?case by simp
next
  case (Cons a xs)
  obtain i token where a: "a = (i, token)" by (cases a)
  show ?case using Cons.IH unfolding a by (cases w) (simp_all split: option.splits)
qed

text \<open>One pass of the grouping loop, on the token at position n.\<close>

lemma cand_indexes_loop_one:
  assumes "cand_indexes_loop self w [(n, t)] c0 = Inr c"
  shows "(\<not> is_cand self t \<and> c = c0)
       \<or> (is_cand self t \<and> w \<and> c0 \<noteq> [] \<and> is_continuation self t
            \<and> c = butlast c0 @ [last c0 @ [n]])
       \<or> (is_cand self t \<and> \<not> (w \<and> c0 \<noteq> [] \<and> is_continuation self t) \<and> c = c0 @ [[n]])"
  using assms
  by (auto simp: is_cand_def is_continuation_def Suc_le_eq split: if_splits option.splits)

lemma filter_cand_snoc:
  "filter (\<lambda>i. is_cand self ((ts @ [t]) ! i)) [0..<length (ts @ [t])]
     = filter (\<lambda>i. is_cand self (ts ! i)) [0..<length ts] @ (if is_cand self t then [length ts] else [])"
proof -
  have "filter (\<lambda>i. is_cand self ((ts @ [t]) ! i)) [0..<length ts]
          = filter (\<lambda>i. is_cand self (ts ! i)) [0..<length ts]"
    by (rule filter_cong) (auto simp: nth_append)
  then show ?thesis by simp
qed

lemma last_concat_nonempty:
  "xss \<noteq> [] \<Longrightarrow> last xss \<noteq> [] \<Longrightarrow> last (concat xss) = last (last xss)"
proof -
  assume a: "xss \<noteq> []" "last xss \<noteq> []"
  have "concat xss = concat (butlast xss) @ last xss"
    using a(1) by (metis append_butlast_last_id concat.simps(1,2) concat_append append_Nil2)
  then show ?thesis using a(2) by simp
qed

lemma concat_butlast_snoc:
  "xss \<noteq> [] \<Longrightarrow> concat (butlast xss @ [last xss @ ys]) = concat xss @ ys"
proof -
  assume a: "xss \<noteq> []"
  have "concat xss = concat (butlast xss) @ last xss"
    using a by (metis append_butlast_last_id concat.simps(1,2) concat_append append_Nil2)
  then show ?thesis by simp
qed

lemma cand_groups_inv:
  assumes "cand_indexes_loop self w (enumerate 0 ts) [] = Inr c"
  shows "concat c = filter (\<lambda>i. is_cand self (ts ! i)) [0..<length ts]
       \<and> [] \<notin> set c
       \<and> (w \<longrightarrow> (\<forall>p. Suc p < length ts \<and> is_cand self (ts ! p) \<and> is_cand self (ts ! Suc p)
                      \<and> is_continuation self (ts ! Suc p)
                  \<longrightarrow> (\<exists>g \<in> set c. p \<in> set g \<and> Suc p \<in> set g)))"
  using assms
proof (induction ts arbitrary: c rule: rev_induct)
  case Nil
  then show ?case by simp
next
  case (snoc t ts)
  let ?n = "length ts"
  let ?P = "\<lambda>i. is_cand self (ts ! i)"
  have en: "enumerate 0 (ts @ [t]) = enumerate 0 ts @ [(?n, t)]"
    by (simp add: enumerate_append_eq)
  from snoc.prems obtain c0 where
    c0: "cand_indexes_loop self w (enumerate 0 ts) [] = Inr c0" and
    st: "cand_indexes_loop self w [(?n, t)] c0 = Inr c"
    unfolding en cand_indexes_loop_append by (auto split: sum.splits)
  from snoc.IH[OF c0] have
    ih1: "concat c0 = filter ?P [0..<?n]" and
    ih2: "[] \<notin> set c0" and
    ih3: "w \<longrightarrow> (\<forall>p. Suc p < ?n \<and> is_cand self (ts ! p) \<and> is_cand self (ts ! Suc p)
                      \<and> is_continuation self (ts ! Suc p)
                  \<longrightarrow> (\<exists>g \<in> set c0. p \<in> set g \<and> Suc p \<in> set g))"
    by blast+
  have fs: "filter (\<lambda>i. is_cand self ((ts @ [t]) ! i)) [0..<length (ts @ [t])]
              = filter ?P [0..<?n] @ (if is_cand self t then [?n] else [])"
    by (rule filter_cand_snoc)
  \<comment> \<open>a candidate just before position n is the last element of the last group\<close>
  have prev: "c0 \<noteq> [] \<and> p \<in> set (last c0)" if "Suc p = ?n" "is_cand self (ts ! p)" for p
  proof -
    have "[0..<?n] = [0..<p] @ [p]" using that(1) by (metis upt_Suc_append zero_le)
    then have "filter ?P [0..<?n] = filter ?P [0..<p] @ [p]" using that(2) by simp
    then have cc: "concat c0 = filter ?P [0..<p] @ [p]" using ih1 by simp
    then have ne: "c0 \<noteq> []" by auto
    then have "last c0 \<noteq> []" using ih2 by (metis last_in_set)
    with ne have "last (concat c0) = last (last c0)" by (rule last_concat_nonempty)
    then have "last (last c0) = p" using cc by simp
    then show ?thesis using ne \<open>last c0 \<noteq> []\<close> by (metis last_in_set)
  qed
  \<comment> \<open>pairs grouped before stay grouped when the groups only grow\<close>
  have old: "\<exists>g \<in> set c. p \<in> set g \<and> Suc p \<in> set g"
    if w: "w" and p: "Suc p < ?n" "is_cand self ((ts @ [t]) ! p)"
      "is_cand self ((ts @ [t]) ! Suc p)" "is_continuation self ((ts @ [t]) ! Suc p)"
      and grow: "\<forall>g \<in> set c0. \<exists>g' \<in> set c. set g \<subseteq> set g'" for p
  proof -
    from p have "is_cand self (ts ! p)" "is_cand self (ts ! Suc p)"
      "is_continuation self (ts ! Suc p)" by (simp_all add: nth_append)
    with ih3 w p(1) obtain g where "g \<in> set c0" "p \<in> set g" "Suc p \<in> set g" by blast
    with grow show ?thesis by blast
  qed
  from cand_indexes_loop_one[OF st] consider
      (skip) "\<not> is_cand self t" "c = c0"
    | (cont) "is_cand self t" "w" "c0 \<noteq> []" "is_continuation self t"
             "c = butlast c0 @ [last c0 @ [?n]]"
    | (new) "is_cand self t" "\<not> (w \<and> c0 \<noteq> [] \<and> is_continuation self t)" "c = c0 @ [[?n]]"
    by blast
  then show ?case
  proof cases
    case skip
    have a: "concat c = filter (\<lambda>i. is_cand self ((ts @ [t]) ! i)) [0..<length (ts @ [t])]"
      using fs ih1 skip by simp
    have b: "[] \<notin> set c" using ih2 skip by simp
    have c: "\<exists>g \<in> set c. p \<in> set g \<and> Suc p \<in> set g"
      if "w" "Suc p < length (ts @ [t])" "is_cand self ((ts @ [t]) ! p)"
        "is_cand self ((ts @ [t]) ! Suc p)" "is_continuation self ((ts @ [t]) ! Suc p)" for p
    proof (cases "Suc p = ?n")
      case True
      with that(4) skip(1) show ?thesis by simp
    next
      case False
      with that(2) have "Suc p < ?n" by simp
      then show ?thesis using old[OF that(1) _ that(3,4,5)] skip(2) by blast
    qed
    from a b c show ?thesis by blast
  next
    case cont
    have cc: "concat c = concat c0 @ [?n]"
      unfolding cont(5) using cont(3) by (rule concat_butlast_snoc)
    have a: "concat c = filter (\<lambda>i. is_cand self ((ts @ [t]) ! i)) [0..<length (ts @ [t])]"
      using fs ih1 cont(1) cc by simp
    have b: "[] \<notin> set c" using ih2 cont(5) by (auto dest: in_set_butlastD)
    have grow: "\<forall>g \<in> set c0. \<exists>g' \<in> set c. set g \<subseteq> set g'"
    proof
      fix g assume g: "g \<in> set c0"
      have "c0 = butlast c0 @ [last c0]" using cont(3) by simp
      then have "g \<in> set (butlast c0) \<or> g = last c0" using g
        by (metis Un_iff insert_iff list.set(2) set_append empty_iff empty_set)
      then show "\<exists>g' \<in> set c. set g \<subseteq> set g'" using cont(5) by auto
    qed
    have c: "\<exists>g \<in> set c. p \<in> set g \<and> Suc p \<in> set g"
      if "w" "Suc p < length (ts @ [t])" "is_cand self ((ts @ [t]) ! p)"
        "is_cand self ((ts @ [t]) ! Suc p)" "is_continuation self ((ts @ [t]) ! Suc p)" for p
    proof (cases "Suc p = ?n")
      case True
      then have "is_cand self (ts ! p)" using that(3) by (simp add: nth_append)
      from prev[OF True this] have "p \<in> set (last c0)" by simp
      then show ?thesis using cont(5) True by auto
    next
      case False
      with that(2) have "Suc p < ?n" by simp
      then show ?thesis using old[OF that(1) _ that(3,4,5) grow] by blast
    qed
    from a b c show ?thesis by blast
  next
    case new
    have a: "concat c = filter (\<lambda>i. is_cand self ((ts @ [t]) ! i)) [0..<length (ts @ [t])]"
      using fs ih1 new(1,3) by simp
    have b: "[] \<notin> set c" using ih2 new(3) by simp
    have grow: "\<forall>g \<in> set c0. \<exists>g' \<in> set c. set g \<subseteq> set g'"
      using new(3) by auto
    have c: "\<exists>g \<in> set c. p \<in> set g \<and> Suc p \<in> set g"
      if "w" "Suc p < length (ts @ [t])" "is_cand self ((ts @ [t]) ! p)"
        "is_cand self ((ts @ [t]) ! Suc p)" "is_continuation self ((ts @ [t]) ! Suc p)" for p
    proof (cases "Suc p = ?n")
      case True
      then have "is_cand self (ts ! p)" using that(3) by (simp add: nth_append)
      from prev[OF True this] have "c0 \<noteq> []" by simp
      moreover have "is_continuation self t" using that(5) True by (simp add: nth_append)
      ultimately show ?thesis using new(2) that(1) by blast
    next
      case False
      with that(2) have "Suc p < ?n" by simp
      then show ?thesis using old[OF that(1) _ that(3,4,5) grow] by blast
    qed
    from a b c show ?thesis by blast
  qed
qed

text \<open>The shuffle permutes its list: no candidate is lost and none is invented.\<close>

lemma shuffle_from_set:
  "i < length xs \<Longrightarrow> set (fst (shuffle_from i xs r)) = set xs"
proof (induction i arbitrary: xs r)
  case 0
  show ?case by simp
next
  case (Suc i)
  let ?j = "shd r mod Suc (Suc i)"
  let ?ys = "xs[Suc i := xs ! ?j, ?j := xs ! Suc i]"
  have j: "?j < length xs" using Suc.prems by (meson le_less_trans mod_less_divisor less_Suc_eq_le zero_less_Suc)
  have "set ?ys = set xs" using Suc.prems j by (rule set_swap)
  moreover have "i < length ?ys" using Suc.prems by simp
  ultimately show ?case using Suc.IH[of ?ys "stl r"] by (simp add: Let_def)
qed

lemma rng_shuffle_set: "set (fst (rng_shuffle xs r)) = set xs"
proof (cases xs)
  case Nil
  then show ?thesis by (simp add: rng_shuffle_def)
next
  case (Cons a list)
  then have "length xs - 1 < length xs" by simp
  then show ?thesis unfolding rng_shuffle_def by (rule shuffle_from_set)
qed

text \<open>The n-gram list of a candidate, the draw of \<open>n\<close> and the shortening loop.\<close>

lemma build_ngram_indexes_mem:
  assumes "cset \<in> set (build_ngram_indexes c (ngrams_of mx))"
  shows "\<exists>idx. cset = map (\<lambda>n. take (nat n) (drop idx c)) (ngrams_of mx)"
  using assms by (auto simp: build_ngram_indexes_def)

lemma ngram_set_length:
  "length (map (\<lambda>n. take (nat n) (drop idx c)) (ngrams_of mx)) = nat mx"
  by (simp add: ngrams_of_def)

lemma ngram_set_nth:
  assumes "k < nat mx"
  shows "map (\<lambda>n. take (nat n) (drop idx c)) (ngrams_of mx) ! k = take (Suc k) (drop idx c)"
proof -
  have "[1..mx] ! k = 1 + int k" using assms by (intro nth_upto) linarith
  moreover have "k < length [1..mx]" using assms by simp
  ultimately show ?thesis by (simp add: ngrams_of_def nat_add_distrib)
qed

lemma choose_ngram_range:
  assumes "choose_ngram geo mx num r0 = Inr (n, r)" and "0 < num" and "num = nat mx"
  shows "1 \<le> n \<and> n \<le> mx"
proof (cases geo)
  case False
  let ?k = "shd r0 mod nat mx"
  have k: "?k < nat mx" using assms(2,3) by simp
  have tk: "take num (ngrams_of mx) = [1..mx]" using assms(3) by (simp add: ngrams_of_def)
  have le: "1 + int ?k \<le> mx" using k by linarith
  have nth: "[1..mx] ! ?k = 1 + int ?k" using le by (rule nth_upto)
  have "rng_choice [1..mx] r0 = Inr (n, r)"
    using assms(1) False unfolding choose_ngram_def tk by simp
  then have "n = [1..mx] ! ?k"
    by (simp add: rng_choice_def split: if_splits)
  then show ?thesis using nth k by linarith
next
  case True
  with assms(1) have "n = min (1 + int (shd r0)) mx"
    by (auto simp: choose_ngram_def rng_geometric_def)
  moreover have "1 \<le> mx" using assms(2,3) by linarith
  ultimately show ?thesis by linarith
qed

lemma choose_ngram_succeeds:
  assumes "0 < num" and "num = nat mx"
  shows "\<exists>n r. choose_ngram geo mx num r0 = Inr (n, r)"
proof (cases geo)
  case False
  have "take num (ngrams_of mx) \<noteq> []" using assms by (simp add: ngrams_of_def)
  then show ?thesis using False by (simp add: choose_ngram_def rng_choice_def)
next
  case True
  then show ?thesis by (simp add: choose_ngram_def rng_geometric_def)
qed

lemma py_getitem_nth:
  "0 \<le> i \<Longrightarrow> i < int (length xs) \<Longrightarrow> py_getitem xs i = Inr (xs ! nat i)"
  by (simp add: py_getitem_def py_index_def)

lemma shrink_ngram_stop:
  "\<not> int m + int (length ixs) > ntp \<or> n = 0 \<Longrightarrow> shrink_ngram cset m ntp n ixs = Inr ixs"
  by (subst shrink_ngram.simps) auto

lemma shrink_ngram_step:
  assumes "int m + int (length ixs) > ntp" and "0 < n" and "n \<le> int (length cset)"
  shows "shrink_ngram cset m ntp n ixs
           = shrink_ngram cset m ntp (n - 1) (concat (cset ! nat (n - 1)))"
proof -
  have g: "py_getitem cset (n - 1) = Inr (cset ! nat (n - 1))"
    using assms(2,3) by (intro py_getitem_nth) linarith+
  show ?thesis
    by (subst shrink_ngram.simps) (use assms(1,2) g in simp)
qed

lemma shrink_ngram_result:
  assumes "0 \<le> n" and "n \<le> int (length cset)"
  shows "\<exists>ixs'. shrink_ngram cset m ntp n ixs = Inr ixs'
         \<and> ((ixs' = ixs \<and> (\<not> over_budget m ntp ixs \<or> n = 0))
            \<or> (over_budget m ntp ixs
               \<and> (\<exists>k < nat n. ixs' = concat (cset ! k)
                     \<and> (\<forall>j. k < j \<and> j < nat n \<longrightarrow> over_budget m ntp (concat (cset ! j)))
                     \<and> (over_budget m ntp ixs' \<longrightarrow> k = 0))))"
  using assms
proof (induction "nat n" arbitrary: n ixs)
  case 0
  then have "n = 0" by simp
  then have "shrink_ngram cset m ntp n ixs = Inr ixs" by (intro shrink_ngram_stop) simp
  then show ?case using \<open>n = 0\<close> by blast
next
  case (Suc x)
  then have n: "0 < n" "x = nat (n - 1)" "0 \<le> n - 1" "n - 1 \<le> int (length cset)"
    by linarith+
  show ?case
  proof (cases "over_budget m ntp ixs")
    case False
    then have "shrink_ngram cset m ntp n ixs = Inr ixs"
      by (intro shrink_ngram_stop) (simp add: over_budget_def)
    then show ?thesis using False by blast
  next
    case True
    define ixs1 where "ixs1 = concat (cset ! x)"
    have un: "shrink_ngram cset m ntp n ixs = shrink_ngram cset m ntp (n - 1) ixs1"
      unfolding ixs1_def n(2)
      using True n(1) Suc.prems(2) by (intro shrink_ngram_step) (simp_all add: over_budget_def)
    from Suc.hyps(1)[OF n(2) n(3) n(4)] obtain ixs' where
      r: "shrink_ngram cset m ntp (n - 1) ixs1 = Inr ixs'" and
      d: "(ixs' = ixs1 \<and> (\<not> over_budget m ntp ixs1 \<or> n - 1 = 0))
            \<or> (over_budget m ntp ixs1
               \<and> (\<exists>k < nat (n - 1). ixs' = concat (cset ! k)
                     \<and> (\<forall>j. k < j \<and> j < nat (n - 1) \<longrightarrow> over_budget m ntp (concat (cset ! j)))
                     \<and> (over_budget m ntp ixs' \<longrightarrow> k = 0)))"
      by blast
    have xn: "x < nat n" "nat n = Suc x" using n by linarith+
    have x0: "n - 1 = 0 \<Longrightarrow> x = 0" using n(2) by simp
    from d have "\<exists>k < nat n. ixs' = concat (cset ! k)
                     \<and> (\<forall>j. k < j \<and> j < nat n \<longrightarrow> over_budget m ntp (concat (cset ! j)))
                     \<and> (over_budget m ntp ixs' \<longrightarrow> k = 0)"
    proof
      assume a: "ixs' = ixs1 \<and> (\<not> over_budget m ntp ixs1 \<or> n - 1 = 0)"
      have 1: "ixs' = concat (cset ! x)" using a ixs1_def by simp
      have 2: "\<forall>j. x < j \<and> j < nat n \<longrightarrow> over_budget m ntp (concat (cset ! j))"
        using xn(2) by (auto simp: less_Suc_eq)
      have 3: "over_budget m ntp ixs' \<longrightarrow> x = 0" using a x0 by blast
      from xn(1) 1 2 3 show ?thesis by blast
    next
      assume a: "over_budget m ntp ixs1
               \<and> (\<exists>k < nat (n - 1). ixs' = concat (cset ! k)
                     \<and> (\<forall>j. k < j \<and> j < nat (n - 1) \<longrightarrow> over_budget m ntp (concat (cset ! j)))
                     \<and> (over_budget m ntp ixs' \<longrightarrow> k = 0))"
      then obtain k where k: "k < x" "ixs' = concat (cset ! k)"
        "\<forall>j. k < j \<and> j < x \<longrightarrow> over_budget m ntp (concat (cset ! j))"
        "over_budget m ntp ixs' \<longrightarrow> k = 0"
        unfolding n(2)[symmetric] by blast
      have 2: "\<forall>j. k < j \<and> j < nat n \<longrightarrow> over_budget m ntp (concat (cset ! j))"
      proof (intro allI impI)
        fix j assume "k < j \<and> j < nat n"
        then have "(k < j \<and> j < x) \<or> j = x" using xn(2) by linarith
        then show "over_budget m ntp (concat (cset ! j))"
          using k(3) a ixs1_def by blast
      qed
      have "k < nat n" using k(1) xn(1) by linarith
      with k(2,4) 2 show ?thesis by blast
    qed
    then show ?thesis using un r True by simp
  qed
qed

text \<open>Masking the positions of an n-gram, one after the other.\<close>

lemma mask_token_result:
  assumes "mask_token self idx tokens r = Inr (label, tokens', r')"
  shows "idx < length tokens \<and> label = tokens ! idx \<and> length tokens' = length tokens
       \<and> (\<forall>j. j \<noteq> idx \<longrightarrow> tokens' ! j = tokens ! j)"
  using assms
  by (auto simp: mask_token_def Let_def split: if_splits prod.splits)

lemma mask_indexes_result:
  assumes "mask_indexes self ixs st = Inr st'" and "distinct ixs"
  shows "masked_lms st' = masked_lms st @ map (\<lambda>i. (i, output_tokens st ! i)) ixs
       \<and> covered_indexes st' = covered_indexes st \<union> set ixs
       \<and> length (output_tokens st') = length (output_tokens st)
       \<and> (\<forall>j. j \<notin> set ixs \<longrightarrow> output_tokens st' ! j = output_tokens st ! j)
       \<and> (\<forall>i \<in> set ixs. i < length (output_tokens st))"
  using assms
proof (induction ixs arbitrary: st)
  case Nil
  then show ?case by simp
next
  case (Cons i rest)
  from Cons.prems(1) obtain label toks r where
    mt: "mask_token self i (output_tokens st) (np_rng st) = Inr (label, toks, r)" and
    rec: "mask_indexes self rest
            (st\<lparr>covered_indexes := insert i (covered_indexes st), output_tokens := toks,
                np_rng := r, masked_lms := masked_lms st @ [(i, label)]\<rparr>) = Inr st'"
    by (auto split: sum.splits)
  let ?st1 = "st\<lparr>covered_indexes := insert i (covered_indexes st), output_tokens := toks,
                np_rng := r, masked_lms := masked_lms st @ [(i, label)]\<rparr>"
  from mask_token_result[OF mt] have
    t: "i < length (output_tokens st)" "label = output_tokens st ! i"
       "length toks = length (output_tokens st)"
       "\<forall>j. j \<noteq> i \<longrightarrow> toks ! j = output_tokens st ! j"
    by blast+
  have dr: "distinct rest" "i \<notin> set rest" using Cons.prems(2) by simp_all
  from Cons.IH[OF rec dr(1)] have
    ih: "masked_lms st' = masked_lms ?st1 @ map (\<lambda>j. (j, output_tokens ?st1 ! j)) rest"
        "covered_indexes st' = covered_indexes ?st1 \<union> set rest"
        "length (output_tokens st') = length (output_tokens ?st1)"
        "\<forall>j. j \<notin> set rest \<longrightarrow> output_tokens st' ! j = output_tokens ?st1 ! j"
        "\<forall>j \<in> set rest. j < length (output_tokens ?st1)"
    by blast+
  have m: "map (\<lambda>j. (j, toks ! j)) rest = map (\<lambda>j. (j, output_tokens st ! j)) rest"
    using t(4) dr(2) by (intro map_cong) auto
  have a: "masked_lms st' = masked_lms st @ map (\<lambda>j. (j, output_tokens st ! j)) (i # rest)"
    using ih(1) m t(2) by simp
  have b: "covered_indexes st' = covered_indexes st \<union> set (i # rest)" using ih(2) by simp
  have c: "length (output_tokens st') = length (output_tokens st)" using ih(3) t(3) by simp
  have d: "\<forall>j. j \<notin> set (i # rest) \<longrightarrow> output_tokens st' ! j = output_tokens st ! j"
    using ih(4) t(4) by simp
  have e: "\<forall>j \<in> set (i # rest). j < length (output_tokens st)" using ih(5) t(1,3) by simp
  from a b c d e show ?case by blast
qed

subsection \<open>The invariant of the masking loop\<close>

lemma select_index_set_result:
  assumes form: "cset = map (\<lambda>n. take (nat n) (drop idx c)) (ngrams_of mx)" and ne: "cset \<noteq> []"
  shows "\<exists>ixs r n k. select_index_set geo mx ntp cset st = Inr (ixs, r)
           \<and> choose_ngram geo mx (length cset) (np_rng st) = Inr (n, r)
           \<and> 1 \<le> n \<and> n \<le> mx \<and> k < nat n \<and> ixs = concat (cset ! k)
           \<and> (\<forall>j. k < j \<and> j < nat n
                 \<longrightarrow> over_budget (length (masked_lms st)) ntp (concat (cset ! j)))
           \<and> (over_budget (length (masked_lms st)) ntp ixs \<longrightarrow> k = 0)"
proof -
  let ?m = "length (masked_lms st)"
  have len: "length cset = nat mx" unfolding form by (rule ngram_set_length)
  have pos: "0 < length cset" using ne by simp
  from choose_ngram_succeeds[OF pos len] obtain n r where
    ch: "choose_ngram geo mx (length cset) (np_rng st) = Inr (n, r)" by blast
  from choose_ngram_range[OF ch pos len] have n: "1 \<le> n" "n \<le> mx" by blast+
  have n1: "0 \<le> n - 1" "n - 1 < int (length cset)" "n - 1 \<le> int (length cset)"
    using n len by linarith+
  define x where "x = nat (n - 1)"
  have x: "x < nat n" "nat n = Suc x" using n x_def by linarith+
  have g: "py_getitem cset (n - 1) = Inr (cset ! x)"
    unfolding x_def using n1(1,2) by (rule py_getitem_nth)
  define ixs0 where "ixs0 = concat (cset ! x)"
  from shrink_ngram_result[OF n1(1) n1(3), of ?m ntp ixs0] obtain ixs where
    sh: "shrink_ngram cset ?m ntp (n - 1) ixs0 = Inr ixs" and
    d: "(ixs = ixs0 \<and> (\<not> over_budget ?m ntp ixs0 \<or> n - 1 = 0))
            \<or> (over_budget ?m ntp ixs0
               \<and> (\<exists>k < nat (n - 1). ixs = concat (cset ! k)
                     \<and> (\<forall>j. k < j \<and> j < nat (n - 1) \<longrightarrow> over_budget ?m ntp (concat (cset ! j)))
                     \<and> (over_budget ?m ntp ixs \<longrightarrow> k = 0)))"
    by blast
  have sel: "select_index_set geo mx ntp cset st = Inr (ixs, r)"
    unfolding select_index_set_def using ch g sh by (simp add: ixs0_def)
  from d have "\<exists>k < nat n. ixs = concat (cset ! k)
                 \<and> (\<forall>j. k < j \<and> j < nat n \<longrightarrow> over_budget ?m ntp (concat (cset ! j)))
                 \<and> (over_budget ?m ntp ixs \<longrightarrow> k = 0)"
  proof
    assume a: "ixs = ixs0 \<and> (\<not> over_budget ?m ntp ixs0 \<or> n - 1 = 0)"
    have 1: "ixs = concat (cset ! x)" using a ixs0_def by simp
    have 2: "\<forall>j. x < j \<and> j < nat n \<longrightarrow> over_budget ?m ntp (concat (cset ! j))"
      using x(2) by (auto simp: less_Suc_eq)
    have 3: "over_budget ?m ntp ixs \<longrightarrow> x = 0" using a x_def by auto
    from x(1) 1 2 3 show ?thesis by blast
  next
    assume a: "over_budget ?m ntp ixs0
               \<and> (\<exists>k < nat (n - 1). ixs = concat (cset ! k)
                     \<and> (\<forall>j. k < j \<and> j < nat (n - 1) \<longrightarrow> over_budget ?m ntp (concat (cset ! j)))
                     \<and> (over_budget ?m ntp ixs \<longrightarrow> k = 0))"
    then obtain k where k: "k < x" "ixs = concat (cset ! k)"
      "\<forall>j. k < j \<and> j < x \<longrightarrow> over_budget ?m ntp (concat (cset ! j))"
      "over_budget ?m ntp ixs \<longrightarrow> k = 0"
      unfolding x_def[symmetric] by blast
    have 2: "\<forall>j. k < j \<and> j < nat n \<longrightarrow> over_budget ?m ntp (concat (cset ! j))"
    proof (intro allI impI)
      fix j assume "k < j \<and> j < nat n"
      then have "(k < j \<and> j < x) \<or> j = x" using x(2) by linarith
      then show "over_budget ?m ntp (concat (cset ! j))" using k(3) a ixs0_def by blast
    qed
    have "k < nat n" using k(1) x(1) by linarith
    with k(2,4) 2 show ?thesis by blast
  qed
  with sel ch n show ?thesis by blast
qed

lemma concat_slice:
  "concat c = concat (take b c) @ concat (take a (drop b c)) @ concat (drop a (drop b c))"
proof -
  have 1: "take b c @ drop b c = c" by (rule append_take_drop_id)
  have 2: "take a (drop b c) @ drop a (drop b c) = drop b c" by (rule append_take_drop_id)
  have "concat c = concat (take b c @ (take a (drop b c) @ drop a (drop b c)))"
    by (simp only: 1 2)
  then show ?thesis by (simp only: concat_append)
qed

lemma slice_distinct:
  assumes "distinct (concat c)"
  shows "distinct (concat (take a (drop b c)))"
  using assms by (subst (asm) concat_slice[of c b a]) simp

lemma slice_subset: "set (concat (take a (drop b c))) \<subseteq> set (concat c)"
  by (auto dest: in_set_takeD in_set_dropD)

lemma slice_groups:
  assumes dc: "distinct (concat c)" and g: "g \<in> set c"
  shows "set g \<subseteq> set (concat (take a (drop b c))) \<or> set g \<inter> set (concat (take a (drop b c))) = {}"
proof (cases "g \<in> set (take a (drop b c))")
  case True
  then show ?thesis by auto
next
  case False
  have "set g \<inter> set s = {}" if "s \<in> set (take a (drop b c))" for s
  proof -
    have "s \<in> set c" using that by (meson in_set_takeD in_set_dropD)
    moreover have "s \<noteq> g" using that False by blast
    ultimately show ?thesis using dc g by (simp add: distinct_concat_iff) 
  qed
  then show ?thesis by auto
qed

lemma planner_inv_rng: "planner_inv c tokens ntp (st\<lparr>np_rng := r\<rparr>) = planner_inv c tokens ntp st"
  by (simp add: planner_inv_def)

lemma mask_indexes_inv:
  assumes inv: "planner_inv c tokens ntp st"
    and dc: "distinct (concat c)"
    and ixs: "ixs = concat (take a (drop b c))"
    and fits: "\<not> over_budget (length (masked_lms st)) ntp ixs"
    and free: "\<not> list_ex (\<lambda>index. index \<in> covered_indexes st) ixs"
    and run: "mask_indexes self ixs st = Inr st'"
  shows "planner_inv c tokens ntp st'"
proof -
  have dx: "distinct ixs" unfolding ixs using dc by (rule slice_distinct)
  have sub: "set ixs \<subseteq> set (concat c)" unfolding ixs by (rule slice_subset)
  have disj: "set ixs \<inter> covered_indexes st = {}" using free by (auto simp: list_ex_iff)
  from inv have
    i1: "covered_indexes st = fst ` set (masked_lms st)" and
    i2: "distinct (map fst (masked_lms st))" and
    i3: "\<forall>g \<in> set c. set g \<subseteq> covered_indexes st \<or> set g \<inter> covered_indexes st = {}" and
    i4: "covered_indexes st \<subseteq> set (concat c)" and
    i5: "int (length (masked_lms st)) \<le> max 0 ntp" and
    i6: "length (output_tokens st) = length tokens" and
    i7: "\<forall>j. j \<notin> covered_indexes st \<longrightarrow> output_tokens st ! j = tokens ! j" and
    i8: "\<forall>(p, l) \<in> set (masked_lms st). l = tokens ! p"
    unfolding planner_inv_def by blast+
  from mask_indexes_result[OF run dx] have
    m1: "masked_lms st' = masked_lms st @ map (\<lambda>i. (i, output_tokens st ! i)) ixs" and
    m2: "covered_indexes st' = covered_indexes st \<union> set ixs" and
    m3: "length (output_tokens st') = length (output_tokens st)" and
    m4: "\<forall>j. j \<notin> set ixs \<longrightarrow> output_tokens st' ! j = output_tokens st ! j" and
    m5: "\<forall>i \<in> set ixs. i < length (output_tokens st)"
    by blast+
  have fm: "map fst (masked_lms st') = map fst (masked_lms st) @ ixs"
    unfolding m1 by (simp add: comp_def)
  have c1: "covered_indexes st' = fst ` set (masked_lms st')"
  proof -
    have "fst ` set (masked_lms st') = set (map fst (masked_lms st'))" by simp
    also have "\<dots> = fst ` set (masked_lms st) \<union> set ixs" unfolding fm by simp
    finally show ?thesis using m2 i1 by simp
  qed
  have c2: "distinct (map fst (masked_lms st'))"
    unfolding fm using i2 dx disj i1 by auto
  have c3: "\<forall>g \<in> set c. set g \<subseteq> covered_indexes st' \<or> set g \<inter> covered_indexes st' = {}"
  proof
    fix g assume g: "g \<in> set c"
    from slice_groups[OF dc g, of a b] have
      s: "set g \<subseteq> set ixs \<or> set g \<inter> set ixs = {}" unfolding ixs .
    from i3 g have o: "set g \<subseteq> covered_indexes st \<or> set g \<inter> covered_indexes st = {}" by blast
    show "set g \<subseteq> covered_indexes st' \<or> set g \<inter> covered_indexes st' = {}"
      unfolding m2 using s o by blast
  qed
  have c4: "covered_indexes st' \<subseteq> set (concat c)" unfolding m2 using i4 sub by blast
  have c5: "int (length (masked_lms st')) \<le> max 0 ntp"
    using fits unfolding m1 over_budget_def by simp
  have c6: "length (output_tokens st') = length tokens" using m3 i6 by simp
  have c7: "\<forall>j. j \<notin> covered_indexes st' \<longrightarrow> output_tokens st' ! j = tokens ! j"
    unfolding m2 using m4 i7 by simp
  have c8: "\<forall>(p, l) \<in> set (masked_lms st'). l = tokens ! p"
  proof -
    have "output_tokens st ! i = tokens ! i" if "i \<in> set ixs" for i
      using that disj i7 by blast
    then show ?thesis unfolding m1 using i8 by auto
  qed
  from c1 c2 c3 c4 c5 c6 c7 c8 show ?thesis unfolding planner_inv_def by blast
qed

lemma ngram_step_inv:
  assumes inv: "planner_inv c tokens ntp st"
    and dc: "distinct (concat c)"
    and form: "cset = map (\<lambda>n. take (nat n) (drop idx c)) (ngrams_of mx)"
    and run: "ngram_step self geo mx ntp cset st = Inr st'"
  shows "planner_inv c tokens ntp st'"
proof (cases "cset = []")
  case True
  then have "st' = st" using run by (simp add: ngram_step_def)
  then show ?thesis using inv by simp
next
  case False
  from select_index_set_result[OF form False, of geo ntp st] obtain ixs r n k where
    sel: "select_index_set geo mx ntp cset st = Inr (ixs, r)" and
    n: "n \<le> mx" and k: "k < nat n" and ix: "ixs = concat (cset ! k)"
    by blast
  have "k < nat mx" using k n by linarith
  then have ixs: "ixs = concat (take (Suc k) (drop idx c))"
    unfolding ix form by (simp only: ngram_set_nth)
  let ?st1 = "st\<lparr>np_rng := r\<rparr>"
  have inv1: "planner_inv c tokens ntp ?st1" using inv by (simp add: planner_inv_rng)
  show ?thesis
  proof (cases "over_budget (length (masked_lms st)) ntp ixs
                 \<or> list_ex (\<lambda>index. index \<in> covered_indexes st) ixs")
    case True
    then have "st' = ?st1"
      using run False sel by (auto simp: ngram_step_def over_budget_def split: if_splits)
    then show ?thesis using inv1 by simp
  next
    case b: False
    then have m: "mask_indexes self ixs ?st1 = Inr st'"
      using run False sel by (auto simp: ngram_step_def over_budget_def split: if_splits)
    show ?thesis
      by (rule mask_indexes_inv[OF inv1 dc ixs _ _ m]) (use b in simp_all)
  qed
qed

lemma mask_loop_inv:
  assumes "planner_inv c tokens ntp st"
    and "distinct (concat c)"
    and "\<forall>cset \<in> set csets. \<exists>idx. cset = map (\<lambda>n. take (nat n) (drop idx c)) (ngrams_of mx)"
    and "mask_loop self geo mx ntp csets st = Inr st'"
  shows "planner_inv c tokens ntp st'"
  using assms
proof (induction csets arbitrary: st)
  case Nil
  then show ?case by simp
next
  case (Cons cset rest)
  show ?case
  proof (cases "int (length (masked_lms st)) \<ge> ntp")
    case True
    then have "st' = st" using Cons.prems(4) by simp
    then show ?thesis using Cons.prems(1) by simp
  next
    case False
    from Cons.prems(4) False obtain st1 where
      s: "ngram_step self geo mx ntp cset st = Inr st1" and
      l: "mask_loop self geo mx ntp rest st1 = Inr st'"
      by (auto split: sum.splits)
    from Cons.prems(3) obtain idx where
      f: "cset = map (\<lambda>n. take (nat n) (drop idx c)) (ngrams_of mx)" by auto
    have "planner_inv c tokens ntp st1"
      by (rule ngram_step_inv[OF Cons.prems(1,2) f s])
    moreover have "\<forall>cset \<in> set rest. \<exists>idx. cset = map (\<lambda>n. take (nat n) (drop idx c)) (ngrams_of mx)"
      using Cons.prems(3) by simp
    ultimately show ?thesis using Cons.IH[OF _ Cons.prems(2) _ l] by blast
  qed
qed

lemma distinct_map_sort_key:
  "distinct (map f (sort_key f xs)) = distinct (map f xs)"
  by (induction xs) (simp_all add: distinct_insort_key)

text \<open>What a returning call of the planner is made of.\<close>

lemma create_masked_lm_predictions_result:
  assumes "create_masked_lm_predictions self tokens r mx w fl geo = Inr (out, pos, labs, r')"
  shows "\<exists>c st. cand_indexes_loop self w (enumerate 0 tokens) [] = Inr c
           \<and> planner_inv c tokens (num_to_predict_of self tokens) st
           \<and> out = output_tokens st
           \<and> pos = map fst (sort_key fst (masked_lms st))
           \<and> labs = map snd (sort_key fst (masked_lms st))
           \<and> mask_lm_prob self \<noteq> 0"
proof -
  from assms have nz: "mask_lm_prob self \<noteq> 0"
    by (auto simp: create_masked_lm_predictions_def split: if_splits)
  from assms nz obtain c where
    c: "cand_indexes_loop self w (enumerate 0 tokens) [] = Inr c"
    by (auto simp: create_masked_lm_predictions_def split: sum.splits)
  define ntp where "ntp = num_to_predict_of self tokens"
  define sh where "sh = rng_shuffle (build_ngram_indexes c (ngrams_of mx)) r"
  define st0 where "st0 = \<lparr>masked_lms = [], covered_indexes = {}, output_tokens = tokens,
                       np_rng = snd sh\<rparr>"
  from assms nz c obtain st where
    l: "mask_loop self geo mx ntp (fst sh) st0 = Inr st" and
    o: "out = output_tokens st" "pos = map fst (sort_key fst (masked_lms st))"
       "labs = map snd (sort_key fst (masked_lms st))"
    unfolding create_masked_lm_predictions_def ntp_def sh_def st0_def
    by (auto simp: Let_def split: sum.splits prod.splits)
  have inv0: "planner_inv c tokens ntp st0"
    by (simp add: planner_inv_def st0_def)
  have dc: "distinct (concat c)"
    using cand_groups_inv[OF c] by simp
  have mem: "\<forall>cset \<in> set (fst sh). \<exists>idx. cset = map (\<lambda>n. take (nat n) (drop idx c)) (ngrams_of mx)"
    unfolding sh_def rng_shuffle_set by (auto dest: build_ngram_indexes_mem)
  have "planner_inv c tokens ntp st"
    by (rule mask_loop_inv[OF inv0 dc mem l])
  with c o nz show ?thesis unfolding ntp_def by blast
qed

subsection \<open>What the planner returns\<close>

lemma planner_positions:
  assumes c: "cand_indexes_loop self w (enumerate 0 tokens) [] = Inr c"
    and inv: "planner_inv c tokens ntp st"
    and pos: "pos = map fst (sort_key fst (masked_lms st))"
  shows "set pos = covered_indexes st" and "distinct pos" and "length pos = length (masked_lms st)"
    and "\<forall>p \<in> set pos. p < length tokens \<and> is_cand self (tokens ! p)"
proof -
  from inv have
    i1: "covered_indexes st = fst ` set (masked_lms st)" and
    i2: "distinct (map fst (masked_lms st))" and
    i4: "covered_indexes st \<subseteq> set (concat c)"
    unfolding planner_inv_def by blast+
  show s: "set pos = covered_indexes st" unfolding pos i1 by simp
  show "distinct pos" unfolding pos using i2 by (simp only: distinct_map_sort_key)
  show "length pos = length (masked_lms st)" unfolding pos by simp
  have "concat c = filter (\<lambda>i. is_cand self (tokens ! i)) [0..<length tokens]"
    using cand_groups_inv[OF c] by blast
  then have "\<forall>p \<in> set (concat c). p < length tokens \<and> is_cand self (tokens ! p)" by simp
  then show "\<forall>p \<in> set pos. p < length tokens \<and> is_cand self (tokens ! p)"
    using s i4 by blast
qed

text \<open>
  Claim C10. When the planner returns, its token sequence has the length of the input and
  agrees with it at every position that is not in the returned list of masked positions;
  the positions of \<open>cls\<close> and \<open>sep\<close> are never in that list, so they are never altered.
\<close>

theorem create_masked_lm_predictions_frame:
  assumes "create_masked_lm_predictions self tokens r max_ngrams do_whole_word_mask
             favor_longer_ngram geometric_dist = Inr (out, pos, labs, r')"
  shows "length out = length tokens
       \<and> (\<forall>i < length tokens. i \<notin> set pos \<longrightarrow> out ! i = tokens ! i)
       \<and> (\<forall>i < length tokens. \<not> is_cand self (tokens ! i) \<longrightarrow> i \<notin> set pos \<and> out ! i = tokens ! i)"
proof -
  from create_masked_lm_predictions_result[OF assms] obtain c st where
    c: "cand_indexes_loop self do_whole_word_mask (enumerate 0 tokens) [] = Inr c" and
    inv: "planner_inv c tokens (num_to_predict_of self tokens) st" and
    o: "out = output_tokens st" and
    p: "pos = map fst (sort_key fst (masked_lms st))"
    by blast
  note pp = planner_positions[OF c inv p]
  from inv have
    i6: "length (output_tokens st) = length tokens" and
    i7: "\<forall>j. j \<notin> covered_indexes st \<longrightarrow> output_tokens st ! j = tokens ! j"
    unfolding planner_inv_def by blast+
  have a: "length out = length tokens" using o i6 by simp
  have b: "\<forall>i < length tokens. i \<notin> set pos \<longrightarrow> out ! i = tokens ! i"
    using o i7 pp(1) by simp
  have d: "\<forall>i < length tokens. \<not> is_cand self (tokens ! i) \<longrightarrow> i \<notin> set pos \<and> out ! i = tokens ! i"
    using b pp(4) by blast
  from a b d show ?thesis by blast
qed

theorem create_masked_lm_predictions_frame_witness:
  "create_masked_lm_predictions example_dataset [1, 101, 102, 2, 104, 103, 2] (sconst 0) 3
     True False False = Inr ([1, 101, 102, 2, 104, 3, 2], [5], [103], sconst 0)
   \<and> length [1, 101, 102, 2, 104, 3, 2 :: int] = length [1, 101, 102, 2, 104, 103, 2 :: int]
   \<and> [1, 101, 102, 2, 104, 3, 2 :: int] ! 4 = [1, 101, 102, 2, 104, 103, 2 :: int] ! 4
   \<and> [1, 101, 102, 2, 104, 3, 2 :: int] ! 3 = [1, 101, 102, 2, 104, 103, 2 :: int] ! 3"
proof -
  have run: "create_masked_lm_predictions example_dataset [1, 101, 102, 2, 104, 103, 2]
     (sconst 0) 3 True False False = Inr ([1, 101, 102, 2, 104, 3, 2], [5], [103], sconst 0)"
    by (simp add: planner_eval)
  note t = create_masked_lm_predictions_frame[OF run]
  from t have a: "length [1, 101, 102, 2, 104, 3, 2 :: int] = length [1, 101, 102, 2, 104, 103, 2 :: int]"
    by blast
  from t have f: "\<forall>i < length [1, 101, 102, 2, 104, 103, 2 :: int]. i \<notin> set [5 :: nat]
      \<longrightarrow> [1, 101, 102, 2, 104, 3, 2 :: int] ! i = [1, 101, 102, 2, 104, 103, 2 :: int] ! i"
    by blast
  have b: "[1, 101, 102, 2, 104, 3, 2 :: int] ! 4 = [1, 101, 102, 2, 104, 103, 2 :: int] ! 4"
    using f by (rule allE[of _ 4]) simp
  have c: "[1, 101, 102, 2, 104, 3, 2 :: int] ! 3 = [1, 101, 102, 2, 104, 103, 2 :: int] ! 3"
    using f by (rule allE[of _ 3]) simp
  from run a b c show ?thesis by blast
qed

lemma ngram_step_covered:
  assumes "cset \<noteq> []" and "select_index_set geo mx ntp cset st = Inr (ixs, r1)"
    and "\<exists>index \<in> set ixs. index \<in> covered_indexes st"
  shows "ngram_step self geo mx ntp cset st = Inr (st\<lparr>np_rng := r1\<rparr>)"
proof -
  have "list_ex (\<lambda>index. index \<in> covered_indexes st) ixs"
    using assms(3) by (simp add: list_ex_iff)
  then show ?thesis using assms(1,2) by (simp add: ngram_step_def)
qed


text \<open>
  Claim C3. When the planner returns, the masked positions are pairwise distinct (and in
  ascending order), each is a position of the token sequence, and there is one label per
  position. In the loop body, a candidate whose chosen n-gram holds a position that is
  already covered is skipped as a whole: the pass leaves the state as it was, apart from
  the generator.
\<close>

theorem create_masked_lm_predictions_positions:
  assumes "create_masked_lm_predictions self tokens r max_ngrams do_whole_word_mask
             favor_longer_ngram geometric_dist = Inr (out, pos, labs, r')"
  shows "distinct pos \<and> sorted pos \<and> (\<forall>p \<in> set pos. p < length tokens)
       \<and> length labs = length pos
       \<and> (\<forall>cand_index_set st index_set r1 num_to_predict.
             cand_index_set \<noteq> []
             \<and> select_index_set geometric_dist max_ngrams num_to_predict cand_index_set st
                 = Inr (index_set, r1)
             \<and> (\<exists>index \<in> set index_set. index \<in> covered_indexes st)
           \<longrightarrow> ngram_step self geometric_dist max_ngrams num_to_predict cand_index_set st
                 = Inr (st\<lparr>np_rng := r1\<rparr>))"
proof -
  from create_masked_lm_predictions_result[OF assms] obtain c st where
    c: "cand_indexes_loop self do_whole_word_mask (enumerate 0 tokens) [] = Inr c" and
    inv: "planner_inv c tokens (num_to_predict_of self tokens) st" and
    p: "pos = map fst (sort_key fst (masked_lms st))" and
    l: "labs = map snd (sort_key fst (masked_lms st))"
    by blast
  note pp = planner_positions[OF c inv p]
  have a: "distinct pos" by (rule pp(2))
  have "sorted (map fst (sort_key fst (masked_lms st)))" by (rule sorted_sort_key)
  then have b: "sorted pos" using p by simp
  have d: "\<forall>p \<in> set pos. p < length tokens" using pp(4) by blast
  have e: "length labs = length pos" using p l by simp
  have f: "ngram_step self geometric_dist max_ngrams num_to_predict cand_index_set st
                 = Inr (st\<lparr>np_rng := r1\<rparr>)"
    if "cand_index_set \<noteq> []
          \<and> select_index_set geometric_dist max_ngrams num_to_predict cand_index_set st
                 = Inr (index_set, r1)
          \<and> (\<exists>index \<in> set index_set. index \<in> covered_indexes st)"
    for cand_index_set st index_set r1 num_to_predict
    using that ngram_step_covered by blast
  from a b d e f show ?thesis by blast
qed

theorem create_masked_lm_predictions_positions_witness:
  "create_masked_lm_predictions (example_dataset\<lparr>round_len_prob := \<lambda>n. 4\<rparr>)
     [1, 101, 102, 2, 104, 103, 2] ([0, 2, 0] @- sconst 0) 3 True False True
     = Inr ([1, 3, 3, 2, 3, 3, 2], [1, 2, 4, 5], [101, 102, 104, 103], sconst 0)
   \<and> distinct [1, 2, 4, 5 :: nat] \<and> sorted [1, 2, 4, 5 :: nat]
   \<and> length [101, 102, 104, 103 :: int] = length [1, 2, 4, 5 :: nat]"
proof -
  have run: "create_masked_lm_predictions (example_dataset\<lparr>round_len_prob := \<lambda>n. 4\<rparr>)
     [1, 101, 102, 2, 104, 103, 2] ([0, 2, 0] @- sconst 0) 3 True False True
     = Inr ([1, 3, 3, 2, 3, 3, 2], [1, 2, 4, 5], [101, 102, 104, 103], sconst 0)"
    by (simp add: planner_eval)
  from create_masked_lm_predictions_positions[OF run] run show ?thesis by blast
qed





text \<open>
  Claim C2. In whole-word mode, when the planner returns: if position \<open>p\<close> is masked and
  position \<open>p + 1\<close> holds a continuation piece (a candidate token that \<open>is_start_piece\<close>
  rejects), then \<open>p + 1\<close> is masked too; and every group of the grouping loop, also one
  that runs across the \<open>sep\<close> between the two segments, is masked as a whole or not at all.
\<close>

theorem create_masked_lm_predictions_whole_word:
  assumes "create_masked_lm_predictions self tokens r max_ngrams True
             favor_longer_ngram geometric_dist = Inr (out, pos, labs, r')"
  shows "(\<forall>p. p \<in> set pos \<and> Suc p < length tokens \<and> is_cand self (tokens ! Suc p)
               \<and> is_continuation self (tokens ! Suc p)
             \<longrightarrow> Suc p \<in> set pos)
       \<and> (\<exists>cand_indexes. cand_indexes_loop self True (enumerate 0 tokens) [] = Inr cand_indexes
             \<and> (\<forall>group \<in> set cand_indexes.
                   set group \<subseteq> set pos \<or> set group \<inter> set pos = {}))"
proof -
  from create_masked_lm_predictions_result[OF assms] obtain c st where
    c: "cand_indexes_loop self True (enumerate 0 tokens) [] = Inr c" and
    inv: "planner_inv c tokens (num_to_predict_of self tokens) st" and
    p: "pos = map fst (sort_key fst (masked_lms st))"
    by blast
  note pp = planner_positions[OF c inv p]
  from inv have
    i3: "\<forall>g \<in> set c. set g \<subseteq> covered_indexes st \<or> set g \<inter> covered_indexes st = {}"
    unfolding planner_inv_def by blast
  then have g: "\<forall>g \<in> set c. set g \<subseteq> set pos \<or> set g \<inter> set pos = {}"
    using pp(1) by simp
  from cand_groups_inv[OF c] have
    pair: "\<forall>p. Suc p < length tokens \<and> is_cand self (tokens ! p) \<and> is_cand self (tokens ! Suc p)
                      \<and> is_continuation self (tokens ! Suc p)
                  \<longrightarrow> (\<exists>g \<in> set c. p \<in> set g \<and> Suc p \<in> set g)"
    by blast
  have a: "Suc p \<in> set pos"
    if h: "p \<in> set pos \<and> Suc p < length tokens \<and> is_cand self (tokens ! Suc p)
               \<and> is_continuation self (tokens ! Suc p)" for p
  proof -
    from h pp(4) have "is_cand self (tokens ! p)" by blast
    with h pair obtain g where gg: "g \<in> set c" "p \<in> set g" "Suc p \<in> set g" by blast
    from g gg(1) have "set g \<subseteq> set pos \<or> set g \<inter> set pos = {}" by blast
    with gg(2,3) h show ?thesis by blast
  qed
  from a c g show ?thesis by blast
qed

theorem create_masked_lm_predictions_whole_word_witness:
  "create_masked_lm_predictions (example_dataset\<lparr>round_len_prob := \<lambda>n. 4\<rparr>)
     [1, 101, 102, 2, 104, 103, 2] ([1, 2, 0] @- sconst 0) 3 True False False
     = Inr ([1, 3, 3, 2, 3, 3, 2], [1, 2, 4, 5], [101, 102, 104, 103], sconst 0)
   \<and> 1 \<in> set [1, 2, 4, 5 :: nat] \<and> Suc 1 < length [1, 101, 102, 2, 104, 103, 2 :: int]
   \<and> is_cand (example_dataset\<lparr>round_len_prob := \<lambda>n. 4\<rparr>) ([1, 101, 102, 2, 104, 103, 2] ! Suc 1)
   \<and> is_continuation (example_dataset\<lparr>round_len_prob := \<lambda>n. 4\<rparr>)
       ([1, 101, 102, 2, 104, 103, 2] ! Suc 1)
   \<and> Suc 1 \<in> set [1, 2, 4, 5 :: nat]"
proof -
  let ?ds = "example_dataset\<lparr>round_len_prob := \<lambda>n. 4\<rparr>"
  have run: "create_masked_lm_predictions ?ds
     [1, 101, 102, 2, 104, 103, 2] ([1, 2, 0] @- sconst 0) 3 True False False
     = Inr ([1, 3, 3, 2, 3, 3, 2], [1, 2, 4, 5], [101, 102, 104, 103], sconst 0)"
    by (simp add: planner_eval)
  have h: "1 \<in> set [1, 2, 4, 5 :: nat] \<and> Suc 1 < length [1, 101, 102, 2, 104, 103, 2 :: int]
         \<and> is_cand ?ds ([1, 101, 102, 2, 104, 103, 2] ! Suc 1)
         \<and> is_continuation ?ds ([1, 101, 102, 2, 104, 103, 2] ! Suc 1)"
    by (simp add: is_cand_def is_continuation_def example_dataset_def is_start_piece_def)
  from create_masked_lm_predictions_whole_word[OF run] have
    "\<forall>p. p \<in> set [1, 2, 4, 5 :: nat] \<and> Suc p < length [1, 101, 102, 2, 104, 103, 2 :: int]
           \<and> is_cand ?ds ([1, 101, 102, 2, 104, 103, 2] ! Suc p)
           \<and> is_continuation ?ds ([1, 101, 102, 2, 104, 103, 2] ! Suc p)
         \<longrightarrow> Suc p \<in> set [1, 2, 4, 5 :: nat]"
    by blast
  then have "Suc 1 \<in> set [1, 2, 4, 5 :: nat]" using h by blast
  with run h show ?thesis by blast
qed

subsection \<open>Sample construction\<close>

lemma train_sample_dict_unbound:
  "train_sample_dict a b c d e f None = Inl (NameError ''truncated'')"
  by (simp add: train_sample_dict_def)

lemma create_training_sample_raises:
  "\<exists>e. create_training_sample self sample target_seq_length r = Inl e"
proof (cases "create_training_sample self sample target_seq_length r")
  case (Inl e)
  then show ?thesis by blast
next
  case (Inr x)
  then have False
    using create_random_sentence_pair_raises[of sample r]
    unfolding create_training_sample_def Let_def train_sample_dict_unbound
    by (simp split: if_splits sum.splits prod.splits)
  then show ?thesis ..
qed

text \<open>
  No call of \<open>create_training_sample\<close> returns a record, as the lemma above says. With the
  binary head off, the one-sentence document \<open>[101, 103]\<close> and target length 5 pass every
  step up to the dict display, which has a seventh entry \<open>truncated\<close> and raises
  \<open>NameError\<close> for that name.
\<close>

theorem create_training_sample_name_error:
  "create_training_sample example_dataset [[101, 103]] 5 (sconst 0)
     = Inl (NameError ''truncated'')"
proof -
  have "\<not> binary_head example_dataset" "max_seq_length example_dataset = 8"
    by (simp_all add: example_dataset_def)
  moreover have "truncate_seq_pair [101, 103] [] 5 (sconst 0) = Inr ([101, 103], [], sconst 0)"
    by (simp add: truncate_seq_pair_def)
  moreover have "create_tokens_and_token_types example_dataset [101, 103] []
                   = ([1, 101, 103, 2, 2], [0, 0, 0, 0, 1])"
    by (simp add: create_tokens_and_token_types_def example_dataset_def numeral_eq_Suc)
  moreover have "create_masked_lm_predictions example_dataset [1, 101, 103, 2, 2] (sconst 0) 3
                   True False False = Inr ([1, 101, 3, 2, 2], [2], [103], sconst 0)"
    by (simp add: planner_eval)
  moreover have "pad_and_convert_to_numpy example_dataset [1, 101, 3, 2, 2] [0, 0, 0, 0, 1]
                   (map int [2]) [103]
                 = Inr ([1, 101, 3, 2, 2, 0, 0, 0], [0, 0, 0, 0, 1, 0, 0, 0],
                        [- 1, - 1, 103, - 1, - 1, - 1, - 1, - 1], [1, 1, 1, 1, 1, 0, 0, 0],
                        [0, 0, 1, 0, 0, 0, 0, 0])"
    by code_simp
  ultimately show ?thesis
    by (simp add: create_training_sample_def train_sample_dict_def)
qed

text \<open>
  Claim C9. In binary-head mode a document of fewer than two sentences makes
  \<open>create_training_sample\<close> fail on its first assertion, whatever the target length and the
  generator, and \<open>__getitem__\<close> hands that failure to its caller: neither returns a sample.
\<close>

theorem create_training_sample_too_few_sentences:
  assumes "binary_head self" and "length sample < 2"
  shows "create_training_sample self sample target_seq_length r = Inl AssertionError
       \<and> (idx < length samples_mapping
            \<and> samples_mapping ! idx = (start_idx, end_idx, target_seq_length)
            \<and> end_idx \<le> length indexed_dataset
            \<and> map (\<lambda>i. indexed_dataset ! i) [start_idx..<end_idx] = sample
          \<longrightarrow> getitem self seed samples_mapping indexed_dataset random_state idx
                = Inl AssertionError)"
proof -
  have c: "binary_head self \<and> \<not> length sample > 1" using assms by simp
  have a: "create_training_sample self sample target_seq_length r' = Inl AssertionError" for r'
    unfolding create_training_sample_def using c by (rule if_P)
  have b: "getitem self seed samples_mapping indexed_dataset random_state idx
             = Inl AssertionError"
    if h: "idx < length samples_mapping"
      "samples_mapping ! idx = (start_idx, end_idx, target_seq_length)"
      "end_idx \<le> length indexed_dataset"
      "map (\<lambda>i. indexed_dataset ! i) [start_idx..<end_idx] = sample"
  proof -
    have "\<not> list_ex (\<lambda>i. \<not> i < length indexed_dataset) [start_idx..<end_idx]"
      using h(3) by (auto simp: list_ex_iff)
    then show ?thesis
      using h(1,2,4) a by (simp add: getitem_def)
  qed
  from a b show ?thesis by blast
qed

theorem create_training_sample_too_few_sentences_witness:
  "binary_head (example_dataset\<lparr>binary_head := True\<rparr>) \<and> length [[101, 102 :: int]] < 2
   \<and> create_training_sample (example_dataset\<lparr>binary_head := True\<rparr>) [[101, 102]] 5 (sconst 0)
       = Inl AssertionError
   \<and> getitem (example_dataset\<lparr>binary_head := True\<rparr>) 1234 [(0, 1, 5)] [[101, 102]]
       (\<lambda>seed. sconst seed) 0 = Inl AssertionError"
proof -
  have h: "binary_head (example_dataset\<lparr>binary_head := True\<rparr>)" "length [[101, 102 :: int]] < 2"
    by simp_all
  have p: "(0::nat) < length [(0::nat, 1::nat, 5::int)]
            \<and> [(0::nat, 1::nat, 5::int)] ! 0 = (0, 1, 5)
            \<and> (1::nat) \<le> length [[101, 102 :: int]]
            \<and> map (\<lambda>i. [[101, 102 :: int]] ! i) [0..<1] = [[101, 102]]"
    by simp
  from create_training_sample_too_few_sentences[OF h, of 5 "sconst 0" 0 "[(0, 1, 5)]" 0 1
      "[[101, 102]]" 1234 "\<lambda>seed. sconst seed"] p h
  show ?thesis by blast
qed

end
